theory Spec2Isabelle
  imports Complex_Main
begin

section \<open>Numbers and vectors (js/Vector.js)\<close>

text \<open>
  The simulation computes with JavaScript numbers. The first embedding takes them as exact
  reals; it settles the claims about the structure of the computation (what is tested, what
  is stored where, what is removed, what is summed), which do not depend on rounding. The
  one division of the simulation that is not guarded against a zero divisor (the local
  density) has an explicit non-finite result there. The claims that do depend on rounding
  are settled over the binary64 versions of the vector functions, further down.

  A \<open>Vector\<close> object is never shared between two agents (every constructor call and every
  static \<open>Vector.add\<close>/\<open>Vector.sub\<close> allocates a fresh one), so vectors are values and
  a mutating method is the function from the old value of \<open>this\<close> to the new one.
\<close>

record Vector =
  vx :: real
  vy :: real

definition Vector_new :: "real \<Rightarrow> real \<Rightarrow> Vector" where
  "Vector_new a b = \<lparr>vx = a, vy = b\<rparr>"

definition Vector_add :: "Vector \<Rightarrow> Vector \<Rightarrow> Vector" where
  "Vector_add a b = \<lparr>vx = vx a + vx b, vy = vy a + vy b\<rparr>"

definition Vector_sub :: "Vector \<Rightarrow> Vector \<Rightarrow> Vector" where
  "Vector_sub a b = \<lparr>vx = vx a - vx b, vy = vy a - vy b\<rparr>"

definition Vector_mult :: "Vector \<Rightarrow> real \<Rightarrow> Vector" where
  "Vector_mult v s = \<lparr>vx = vx v * s, vy = vy v * s\<rparr>"

definition Vector_div :: "Vector \<Rightarrow> real \<Rightarrow> Vector" where
  "Vector_div v s = (if s \<noteq> 0 then \<lparr>vx = vx v / s, vy = vy v / s\<rparr> else v)"

definition Vector_mag :: "Vector \<Rightarrow> real" where
  "Vector_mag v = sqrt (vx v * vx v + vy v * vy v)"

definition Vector_normalize :: "Vector \<Rightarrow> Vector" where
  "Vector_normalize v = (let m = Vector_mag v in if m \<noteq> 0 then Vector_div v m else v)"

definition Vector_limit :: "Vector \<Rightarrow> real \<Rightarrow> Vector" where
  "Vector_limit v mx =
     (let m = Vector_mag v in
      if m > mx then Vector_mult (Vector_normalize v) mx else v)"

definition Vector_dist :: "Vector \<Rightarrow> Vector \<Rightarrow> real" where
  "Vector_dist a b =
     (let dx = vx a - vx b; dy = vy a - vy b in sqrt (dx * dx + dy * dy))"

section \<open>The environment (js/Environment.js)\<close>

record Rect =
  rx :: real
  ry :: real
  rw :: real
  rh :: real

record Environment =
  width :: real
  height :: real
  walls :: "Rect list"
  exit :: Rect
  restrictedZones :: "Rect list"

definition setupEnvironment :: "Environment \<Rightarrow> Environment" where
  "setupEnvironment e =
     e\<lparr>walls := walls e @
          [\<lparr>rx = 0, ry = 0, rw = width e, rh = 20\<rparr>,
           \<lparr>rx = 0, ry = height e - 20, rw = width e, rh = 20\<rparr>,
           \<lparr>rx = 0, ry = 0, rw = 20, rh = height e\<rparr>,
           \<lparr>rx = 300, ry = 100, rw = 20, rh = 200\<rparr>,
           \<lparr>rx = 300, ry = 400, rw = 20, rh = 200\<rparr>],
       restrictedZones := restrictedZones e @
          [\<lparr>rx = 100, ry = 100, rw = 100, rh = 100\<rparr>]\<rparr>"

definition Environment_new :: "real \<Rightarrow> real \<Rightarrow> Environment" where
  "Environment_new w h =
     setupEnvironment
       \<lparr>width = w, height = h, walls = [],
        exit = \<lparr>rx = w - 50, ry = h / 2 - 25, rw = 50, rh = 50\<rparr>,
        restrictedZones = []\<rparr>"

definition rectIntersect :: "Rect \<Rightarrow> Rect \<Rightarrow> bool" where
  "rectIntersect r1 r2 =
     (\<not> (rx r1 + rw r1 < rx r2 \<or> rx r1 > rx r2 + rw r2 \<or>
         ry r1 + rh r1 < ry r2 \<or> ry r1 > ry r2 + rh r2))"

text \<open>The square of half-width \<open>agentRadius = 5\<close> that \<open>isPositionValid\<close> builds.\<close>

definition agentRect :: "Vector \<Rightarrow> Rect" where
  "agentRect pos =
     (let agentRadius = 5 in
      \<lparr>rx = vx pos - agentRadius, ry = vy pos - agentRadius,
       rw = agentRadius * 2, rh = agentRadius * 2\<rparr>)"

text \<open>One \<open>for (let r of rects) if (rectIntersect(agentRect, r)) return false\<close> loop:
  \<open>True\<close> when the loop returns early.\<close>

fun hitsAny :: "Rect \<Rightarrow> Rect list \<Rightarrow> bool" where
  "hitsAny a [] = False"
| "hitsAny a (r # rs) = (if rectIntersect a r then True else hitsAny a rs)"

definition isPositionValid :: "Environment \<Rightarrow> Vector \<Rightarrow> bool" where
  "isPositionValid e pos =
     (if hitsAny (agentRect pos) (walls e) then False
      else if hitsAny (agentRect pos) (restrictedZones e) then False
      else if vx pos < 0 \<or> vx pos > width e \<or> vy pos < 0 \<or> vy pos > height e then False
      else True)"

definition exitCenter :: "Environment \<Rightarrow> Vector" where
  "exitCenter e = Vector_new (rx (exit e) + rw (exit e) / 2) (ry (exit e) + rh (exit e) / 2)"

definition isAtExit :: "Environment \<Rightarrow> Vector \<Rightarrow> real \<Rightarrow> bool" where
  "isAtExit e pos threshold = (Vector_dist pos (exitCenter e) < threshold)"

section \<open>Agents (js/Agent.js)\<close>

record Agent =
  position :: Vector
  velocity :: Vector
  maxSpeed :: real
  perceptionRadius :: real
  desiredSeparation :: real
  radius :: real
  wallPerceptionRadius :: real

definition Agent_new :: "real \<Rightarrow> real \<Rightarrow> real \<Rightarrow> real \<Rightarrow> real \<Rightarrow> Agent" where
  "Agent_new a b ms pr ds =
     \<lparr>position = Vector_new a b, velocity = Vector_new 0 0, maxSpeed = ms,
      perceptionRadius = pr, desiredSeparation = ds, radius = 5,
      wallPerceptionRadius = 30\<rparr>"

definition applyForce :: "Agent \<Rightarrow> Vector \<Rightarrow> Agent" where
  "applyForce a force = a\<lparr>velocity := Vector_add (velocity a) force\<rparr>"

definition Agent_update :: "Environment \<Rightarrow> Agent \<Rightarrow> Agent" where
  "Agent_update env a =
     (let v1 = Vector_limit (velocity a) (maxSpeed a);
          nextPosition = Vector_add (position a) v1
      in if \<not> isPositionValid env nextPosition
         then (let v2 = Vector_mult v1 0.8
               in a\<lparr>velocity := v2, position := Vector_add (position a) v2\<rparr>)
         else a\<lparr>velocity := v1, position := nextPosition\<rparr>)"

text \<open>The accumulation loop of \<open>separation\<close>: the state is \<open>(steer, count)\<close>.\<close>

fun separation_loop :: "Agent \<Rightarrow> Agent list \<Rightarrow> Vector \<times> nat \<Rightarrow> Vector \<times> nat" where
  "separation_loop a [] acc = acc"
| "separation_loop a (n # ns) (steer, count) =
     (let d = Vector_dist (position a) (position n)
      in if d > 0 \<and> d < desiredSeparation a
         then separation_loop a ns
                (Vector_add steer
                   (Vector_div (Vector_normalize (Vector_sub (position a) (position n))) d),
                 count + 1)
         else separation_loop a ns (steer, count))"

text \<open>The tail shared by \<open>separation\<close> and \<open>wallAvoidance\<close>: average, then rescale to
  \<open>maxSpeed\<close> and subtract the current velocity when the average is not zero.\<close>

definition steer_finish :: "Agent \<Rightarrow> Vector \<times> nat \<Rightarrow> Vector" where
  "steer_finish a acc =
     (let steer = (if snd acc > 0 then Vector_div (fst acc) (real (snd acc)) else fst acc)
      in if Vector_mag steer > 0
         then Vector_sub (Vector_mult (Vector_normalize steer) (maxSpeed a)) (velocity a)
         else steer)"

definition separation :: "Agent \<Rightarrow> Agent list \<Rightarrow> Vector" where
  "separation a neighbors = steer_finish a (separation_loop a neighbors (Vector_new 0 0, 0))"

fun alignment_loop :: "Agent list \<Rightarrow> Vector \<times> nat \<Rightarrow> Vector \<times> nat" where
  "alignment_loop [] acc = acc"
| "alignment_loop (n # ns) (tot, count) =
     alignment_loop ns (Vector_add tot (velocity n), count + 1)"

definition alignment :: "Agent \<Rightarrow> Agent list \<Rightarrow> Vector" where
  "alignment a neighbors =
     (let (tot, count) = alignment_loop neighbors (Vector_new 0 0, 0)
      in if count > 0
         then Vector_sub
                (Vector_mult (Vector_normalize (Vector_div tot (real count))) (maxSpeed a))
                (velocity a)
         else Vector_new 0 0)"

fun cohesion_loop :: "Agent list \<Rightarrow> Vector \<times> nat \<Rightarrow> Vector \<times> nat" where
  "cohesion_loop [] acc = acc"
| "cohesion_loop (n # ns) (tot, count) =
     cohesion_loop ns (Vector_add tot (position n), count + 1)"

definition cohesion :: "Agent \<Rightarrow> Agent list \<Rightarrow> Vector" where
  "cohesion a neighbors =
     (let (tot, count) = cohesion_loop neighbors (Vector_new 0 0, 0)
      in if count > 0
         then Vector_sub
                (Vector_mult
                   (Vector_normalize (Vector_sub (Vector_div tot (real count)) (position a)))
                   (maxSpeed a))
                (velocity a)
         else Vector_new 0 0)"

definition seekGoal :: "Agent \<Rightarrow> Vector \<Rightarrow> Vector" where
  "seekGoal a goal =
     (let desired = Vector_mult (Vector_normalize (Vector_sub goal (position a))) (maxSpeed a)
      in Vector_sub desired (velocity a))"

text \<open>The loop body that \<open>wallAvoidance\<close> runs over the walls and then, with the same
  accumulator, over the restricted zones.\<close>

fun avoid_loop :: "Agent \<Rightarrow> Rect list \<Rightarrow> Vector \<times> nat \<Rightarrow> Vector \<times> nat" where
  "avoid_loop a [] acc = acc"
| "avoid_loop a (r # rs) (steer, count) =
     (let closestX = max (rx r) (min (vx (position a)) (rx r + rw r));
          closestY = max (ry r) (min (vy (position a)) (ry r + rh r));
          closestPoint = Vector_new closestX closestY;
          d = Vector_dist (position a) closestPoint
      in if d > 0 \<and> d < wallPerceptionRadius a
         then avoid_loop a rs
                (Vector_add steer
                   (Vector_div (Vector_normalize (Vector_sub (position a) closestPoint)) d),
                 count + 1)
         else avoid_loop a rs (steer, count))"

definition wallAvoidance :: "Agent \<Rightarrow> Environment \<Rightarrow> Vector" where
  "wallAvoidance a env =
     steer_finish a
       (avoid_loop a (restrictedZones env) (avoid_loop a (walls env) (Vector_new 0 0, 0)))"

section \<open>The simulation (js/Simulation.js)\<close>

text \<open>
  Agents are objects: the list \<open>this.agents\<close> and the buckets of \<open>this.grid\<close> hold
  references to them, and a bucket filled at the start of a frame sees the positions and
  velocities the agents have later in the same frame. The model therefore keeps an object
  store \<open>objects\<close> from references to agent states; lists and buckets hold references,
  and \<open>other !== agent\<close> compares references.

  A read of \<open>undefined.length\<close>, \<open>undefined.push\<close> or \<open>undefined.position\<close> throws a
  \<open>TypeError\<close> in the source; it is the error value of the model.
\<close>

type_synonym ref = nat
type_synonym grid = "ref list list list"
type_synonym objects = "ref \<Rightarrow> Agent"

datatype error = TypeError

record Params =
  numAgents :: nat
  separationWeight :: real
  alignmentWeight :: real
  cohesionWeight :: real
  goalWeight :: real
  params_perceptionRadius :: real

text \<open>What the three \<open>console.log\<close> lines of a completed evacuation print.\<close>

record EvacReport =
  report_frames :: nat
  report_seconds :: real
  report_maxDensity :: "real option"
  report_jamCount :: nat

text \<open>
  \<open>maxDensity\<close> is \<open>None\<close> when the number is not finite (the local density divides by
  \<open>\<pi> \<sqdot> perceptionRadius\<^sup>2\<close> without a guard); \<open>averageSpeed\<close> is \<open>None\<close> while the
  property is still undefined, before the first update. \<open>canvasWidth\<close> and
  \<open>canvasHeight\<close> stand for \<open>this.canvas.width\<close> and \<open>this.canvas.height\<close>.
\<close>

record Simulation =
  canvasWidth :: real
  canvasHeight :: real
  env :: Environment
  agents :: "ref list"
  objects :: objects
  frame :: nat
  maxDensity :: "real option"
  jamCount :: nat
  startTime :: real
  params :: Params
  grid :: grid
  averageSpeed :: "real option"
  console :: "EvacReport list"

text \<open>\<open>this.gridSize\<close> is set to 50 by the constructor and never assigned again.\<close>

definition gridSize :: real where
  "gridSize = 50"

definition setupGrid :: "real \<Rightarrow> real \<Rightarrow> grid" where
  "setupGrid cw ch =
     (let cols = \<lceil>cw / gridSize\<rceil>; rows = \<lceil>ch / gridSize\<rceil>
      in replicate (nat cols) (replicate (nat rows) []))"

text \<open>The bounds test that \<open>updateGrid\<close> and \<open>getNeighbors\<close> share. The source reads
  \<open>this.grid[0].length\<close> only after \<open>0 \<le> c < this.grid.length\<close> has succeeded.\<close>

definition inGrid :: "grid \<Rightarrow> int \<Rightarrow> int \<Rightarrow> bool" where
  "inGrid g c r = (c \<ge> 0 \<and> c < int (length g) \<and> r \<ge> 0 \<and> r < int (length (g ! 0)))"

text \<open>\<open>this.grid[col][row].push(agent)\<close>, for \<open>col\<close> within the grid: a column shorter
  than column 0 has no bucket there.\<close>

definition bucketPush :: "grid \<Rightarrow> int \<Rightarrow> int \<Rightarrow> ref \<Rightarrow> error + grid" where
  "bucketPush g c r a =
     (if nat r < length (g ! nat c)
      then Inr (g[nat c := (g ! nat c)[nat r := g ! nat c ! nat r @ [a]]])
      else Inl TypeError)"

fun placeAgents :: "objects \<Rightarrow> ref list \<Rightarrow> grid \<Rightarrow> error + grid" where
  "placeAgents h [] g = Inr g"
| "placeAgents h (a # rest) g =
     (let col = \<lfloor>vx (position (h a)) / gridSize\<rfloor>;
          row = \<lfloor>vy (position (h a)) / gridSize\<rfloor>
      in if inGrid g col row
         then (case bucketPush g col row a of
                 Inl e \<Rightarrow> Inl e
               | Inr g' \<Rightarrow> placeAgents h rest g')
         else placeAgents h rest g)"

definition updateGrid :: "Simulation \<Rightarrow> error + Simulation" where
  "updateGrid s =
     (case placeAgents (objects s) (agents s) (map (map (\<lambda>bucket. [])) (grid s)) of
        Inl e \<Rightarrow> Inl e
      | Inr g \<Rightarrow> Inr (s\<lparr>grid := g\<rparr>))"

text \<open>The state of the scan of \<open>getNeighbors\<close>: still collecting, returned from inside
  the loops with ten neighbours, or thrown.\<close>

datatype scan = Continue "ref list" | Return "ref list" | Throw error

fun scanBucket :: "objects \<Rightarrow> ref \<Rightarrow> ref list \<Rightarrow> ref list \<Rightarrow> scan" where
  "scanBucket h a [] neighbors = Continue neighbors"
| "scanBucket h a (other # rest) neighbors =
     (if other \<noteq> a \<and>
         Vector_dist (position (h a)) (position (h other)) < perceptionRadius (h a)
      then (let neighbors' = neighbors @ [other]
            in if length neighbors' \<ge> 10 then Return neighbors'
               else scanBucket h a rest neighbors')
      else scanBucket h a rest neighbors)"

definition scanCell :: "grid \<Rightarrow> objects \<Rightarrow> ref \<Rightarrow> int \<Rightarrow> int \<Rightarrow> ref list \<Rightarrow> scan" where
  "scanCell g h a c r neighbors =
     (if inGrid g c r
      then (if nat r < length (g ! nat c)
            then scanBucket h a (g ! nat c ! nat r) neighbors
            else Throw TypeError)
      else Continue neighbors)"

text \<open>The inner loop over \<open>j\<close> and the outer loop over \<open>i\<close>.\<close>

fun scanRows :: "grid \<Rightarrow> objects \<Rightarrow> ref \<Rightarrow> int \<Rightarrow> int list \<Rightarrow> ref list \<Rightarrow> scan" where
  "scanRows g h a c [] neighbors = Continue neighbors"
| "scanRows g h a c (r # rs) neighbors =
     (case scanCell g h a c r neighbors of
        Continue neighbors' \<Rightarrow> scanRows g h a c rs neighbors'
      | Return neighbors' \<Rightarrow> Return neighbors'
      | Throw e \<Rightarrow> Throw e)"

fun scanCols :: "grid \<Rightarrow> objects \<Rightarrow> ref \<Rightarrow> int list \<Rightarrow> int list \<Rightarrow> ref list \<Rightarrow> scan" where
  "scanCols g h a [] rs neighbors = Continue neighbors"
| "scanCols g h a (c # cs) rs neighbors =
     (case scanRows g h a c rs neighbors of
        Continue neighbors' \<Rightarrow> scanCols g h a cs rs neighbors'
      | Return neighbors' \<Rightarrow> Return neighbors'
      | Throw e \<Rightarrow> Throw e)"

text \<open>\<open>getNeighbors\<close> reads \<open>this.grid\<close> and the agents the buckets refer to.\<close>

definition getNeighbors :: "grid \<Rightarrow> objects \<Rightarrow> ref \<Rightarrow> error + ref list" where
  "getNeighbors g h a =
     (let col = \<lfloor>vx (position (h a)) / gridSize\<rfloor>;
          row = \<lfloor>vy (position (h a)) / gridSize\<rfloor>;
          range = \<lceil>perceptionRadius (h a) / gridSize\<rceil>
      in case scanCols g h a (map (\<lambda>i. col + i) [- range..range])
                (map (\<lambda>j. row + j) [- range..range]) [] of
           Continue neighbors \<Rightarrow> Inr neighbors
         | Return neighbors \<Rightarrow> Inr neighbors
         | Throw e \<Rightarrow> Inl e)"

text \<open>One iteration of the sweep of \<open>update\<close>, at index \<open>i\<close>, with the running
  \<open>(totalSpeed, jamThisFrame)\<close>. \<open>this.agents[i]\<close> beyond the end of the list is
  \<open>undefined\<close>, and \<open>getNeighbors(undefined)\<close> throws.\<close>

definition agentStep ::
  "Simulation \<Rightarrow> nat \<Rightarrow> real \<times> nat \<Rightarrow> error + Simulation \<times> real \<times> nat" where
  "agentStep s i acc =
     (if i < length (agents s)
      then (let a = agents s ! i
        in case getNeighbors (grid s) (objects s) a of
             Inl e \<Rightarrow> Inl e
           | Inr refs \<Rightarrow>
              (let agent = objects s a;
                   neighbors = map (objects s) refs;
                   separation_f = Vector_mult (separation agent neighbors)
                                    (separationWeight (params s));
                   alignment_f = Vector_mult (alignment agent neighbors)
                                    (alignmentWeight (params s));
                   cohesion_f = Vector_mult (cohesion agent neighbors)
                                    (cohesionWeight (params s));
                   goal_f = Vector_mult (seekGoal agent (exitCenter (env s)))
                                    (goalWeight (params s));
                   wallAvoid = Vector_mult (wallAvoidance agent (env s)) 1.5;
                   force = Vector_add (Vector_add (Vector_add (Vector_add (Vector_add
                             (Vector_new 0 0) separation_f) alignment_f) cohesion_f) goal_f)
                             wallAvoid;
                   agent' = Agent_update (env s) (applyForce agent force);
                   s1 = s\<lparr>objects := (objects s)(a := agent')\<rparr>;
                   s2 = (if isAtExit (env s1) (position agent') 10
                         then s1\<lparr>agents := take i (agents s1) @ drop (Suc i) (agents s1)\<rparr>
                         else s1);
                   speed = Vector_mag (velocity agent')
               in Inr (s2, fst acc + speed, if speed < 0.5 then snd acc + 1 else snd acc)))
      else Inl TypeError)"

text \<open>\<open>sweep n\<close> runs the iterations \<open>i = n - 1, \<dots>, 0\<close> of
  \<open>for (let i = this.agents.length - 1; i >= 0; i--)\<close>.\<close>

fun sweep :: "nat \<Rightarrow> Simulation \<times> real \<times> nat \<Rightarrow> error + Simulation \<times> real \<times> nat" where
  "sweep 0 st = Inr st"
| "sweep (Suc i) (s, acc) =
     (case agentStep s i acc of
        Inl e \<Rightarrow> Inl e
      | Inr st' \<Rightarrow> sweep i st')"

text \<open>\<open>Math.max\<close> and \<open>/\<close> on numbers that may be non-finite (\<open>None\<close>): a division by
  zero gives \<open>Infinity\<close> or \<open>NaN\<close>, and \<open>Math.max\<close> of a non-finite and a finite number,
  or of two non-finite numbers of this computation, is again non-finite.\<close>

definition js_div :: "real \<Rightarrow> real \<Rightarrow> real option" where
  "js_div a b = (if b = 0 then None else Some (a / b))"

definition js_max :: "real option \<Rightarrow> real option \<Rightarrow> real option" where
  "js_max a b = (case a of None \<Rightarrow> None
                 | Some u \<Rightarrow> (case b of None \<Rightarrow> None | Some v \<Rightarrow> Some (max u v)))"

fun densityLoop :: "grid \<Rightarrow> objects \<Rightarrow> ref list \<Rightarrow> real option \<Rightarrow> error + real option" where
  "densityLoop g h [] maxD = Inr maxD"
| "densityLoop g h (a # rest) maxD =
     (case getNeighbors g h a of
        Inl e \<Rightarrow> Inl e
      | Inr neighbors \<Rightarrow>
          (let localD = js_div (real (length neighbors)) (pi * (perceptionRadius (h a))\<^sup>2)
           in densityLoop g h rest (js_max maxD localD)))"

definition calculateMaxDensity :: "Simulation \<Rightarrow> error + real option" where
  "calculateMaxDensity s = densityLoop (grid s) (objects s) (agents s) (Some 0)"

text \<open>\<open>Simulation.update\<close>; \<open>now\<close> is what \<open>Date.now()\<close> returns if the evacuation
  completes in this frame.\<close>

definition Simulation_update :: "real \<Rightarrow> Simulation \<Rightarrow> error + Simulation" where
  "Simulation_update now s =
     (case updateGrid (s\<lparr>frame := frame s + 1\<rparr>) of
        Inl e \<Rightarrow> Inl e
      | Inr s1 \<Rightarrow>
         (case sweep (length (agents s1)) (s1, 0, 0) of
            Inl e \<Rightarrow> Inl e
          | Inr (s2, totalSpeed, jamThisFrame) \<Rightarrow>
             (case calculateMaxDensity s2 of
                Inl e \<Rightarrow> Inl e
              | Inr density \<Rightarrow>
                 (let s3 = s2\<lparr>maxDensity := js_max (maxDensity s2) density,
                              jamCount := jamCount s2 + (if jamThisFrame > 0 then 1 else 0)\<rparr>;
                      s4 = (if length (agents s3) = 0
                            then s3\<lparr>console := console s3 @
                                   [\<lparr>report_frames = frame s3,
                                     report_seconds = (now - startTime s3) / 1000,
                                     report_maxDensity = maxDensity s3,
                                     report_jamCount = jamCount s3\<rparr>]\<rparr>
                            else s3)
                  in Inr (s4\<lparr>averageSpeed :=
                       Some (if length (agents s4) > 0
                             then totalSpeed / real (length (agents s4)) else 0)\<rparr>)))))"

text \<open>\<open>run\<close> performs one update per clock reading and collects the states after each
  frame.\<close>

fun run :: "real list \<Rightarrow> Simulation \<Rightarrow> error + Simulation list" where
  "run [] s = Inr []"
| "run (now # clock) s =
     (case Simulation_update now s of
        Inl e \<Rightarrow> Inl e
      | Inr s' \<Rightarrow> (case run clock s' of Inl e \<Rightarrow> Inl e | Inr tr \<Rightarrow> Inr (s' # tr)))"

text \<open>The state the constructor leaves, with the random spawn of \<open>initAgents\<close> replaced
  by agents placed at given coordinates; the \<open>k\<close>-th agent is the object \<open>k\<close>.\<close>

definition Simulation_new :: "real \<Rightarrow> real \<Rightarrow> real \<Rightarrow> Agent list \<Rightarrow> Simulation" where
  "Simulation_new cw ch start spawned =
     \<lparr>canvasWidth = cw, canvasHeight = ch, env = Environment_new cw ch,
      agents = [0..<length spawned],
      objects = (\<lambda>k. if k < length spawned then spawned ! k else Agent_new 0 0 2 50 20),
      frame = 0, maxDensity = Some 0, jamCount = 0, startTime = start,
      params = \<lparr>numAgents = 50, separationWeight = 1.5, alignmentWeight = 1.0,
                cohesionWeight = 1.0, goalWeight = 1.2, params_perceptionRadius = 50\<rparr>,
      grid = setupGrid cw ch, averageSpeed = None, console = []\<rparr>"

text \<open>Every column of the grid is as long as column 0: what \<open>setupGrid\<close> builds.\<close>

definition rectangular :: "grid \<Rightarrow> bool" where
  "rectangular g = list_all (\<lambda>column. length column = length (g ! 0)) g"

text \<open>The bucket coordinates of an agent: \<open>(floor(x / gridSize), floor(y / gridSize))\<close>.\<close>

definition cellOf :: "objects \<Rightarrow> ref \<Rightarrow> int \<times> int" where
  "cellOf h a = (\<lfloor>vx (position (h a)) / gridSize\<rfloor>, \<lfloor>vy (position (h a)) / gridSize\<rfloor>)"

text \<open>
  What \<open>getNeighbors\<close> is meant to collect, without the cap: the agents other than the
  querying one at Euclidean distance below its \<open>perceptionRadius\<close>, from the buckets of
  the square of \<open>ceil(perceptionRadius / gridSize)\<close> rings around the agent's bucket, in
  the order of the scan (columns outside, rows inside, buckets front to back). A bucket
  outside the grid is empty. \<open>capped\<close> is the scan state after \<open>found\<close> has been added to
  the \<open>neighbors\<close> collected so far, with the cap of ten.
\<close>

definition isNeighbor :: "objects \<Rightarrow> ref \<Rightarrow> ref \<Rightarrow> bool" where
  "isNeighbor h a other =
     (other \<noteq> a \<and> Vector_dist (position (h a)) (position (h other)) < perceptionRadius (h a))"

definition bucketAt :: "grid \<Rightarrow> int \<Rightarrow> int \<Rightarrow> ref list" where
  "bucketAt g c r = (if inGrid g c r then g ! nat c ! nat r else [])"

definition scanOrder :: "grid \<Rightarrow> objects \<Rightarrow> ref \<Rightarrow> ref list" where
  "scanOrder g h a =
     (let col = \<lfloor>vx (position (h a)) / gridSize\<rfloor>;
          row = \<lfloor>vy (position (h a)) / gridSize\<rfloor>;
          range = \<lceil>perceptionRadius (h a) / gridSize\<rceil>
      in concat (map (\<lambda>i. concat (map (\<lambda>j. filter (isNeighbor h a) (bucketAt g (col + i) (row + j)))
                                       [- range..range]))
                     [- range..range]))"

definition capped :: "ref list \<Rightarrow> ref list \<Rightarrow> scan" where
  "capped neighbors found =
     (if length (neighbors @ found) \<ge> 10 then Return (take 10 (neighbors @ found))
      else Continue (neighbors @ found))"


text \<open>
  Two simulation states are the same world when they agree on the environment, the agent
  list, the agents' states, the parameters and the grid; the frame counter, the
  statistics, the start time and what has been logged may differ. \<open>kinematics\<close> is what
  a frame shows of the agents: every active agent with its position and velocity.
\<close>

definition same_world :: "Simulation \<Rightarrow> Simulation \<Rightarrow> bool" where
  "same_world s t =
     (env s = env t \<and> agents s = agents t \<and> objects s = objects t \<and>
      params s = params t \<and> grid s = grid t)"

definition kinematics :: "Simulation \<Rightarrow> (ref \<times> Vector \<times> Vector) list" where
  "kinematics s = map (\<lambda>a. (a, position (objects s a), velocity (objects s a))) (agents s)"

text \<open>
  The statistic as the specification words it: the arithmetic mean of the speeds of the
  agents in the active list, and 0 when the list is empty.
\<close>

definition meanSpeed :: "Simulation \<Rightarrow> real" where
  "meanSpeed s =
     (if agents s = [] then 0
      else (\<Sum>a\<leftarrow>agents s. Vector_mag (velocity (objects s a))) / real (length (agents s)))"

text \<open>
  A scenario on a 200 by 100 canvas, with the default layout: one agent five units left of
  the exit centre \<open>(175, 50)\<close>, a second one far behind it at \<open>(60, 50)\<close>, both at rest.
  \<open>lane_indexed\<close> is the state after \<open>updateGrid\<close>, \<open>lane_first\<close> after the sweep has
  processed the agent at index 1, \<open>lane_swept\<close> after the whole sweep; \<open>leaver_after\<close> and
  \<open>stayer_after\<close> are the two agents after their steps.
\<close>

definition lane :: Simulation where
  "lane = Simulation_new 200 100 0 [Agent_new 170 50 2 50 20, Agent_new 60 50 2 50 20]"

definition stayer_after :: Agent where
  "stayer_after = \<lparr>position = \<lparr>vx = 62, vy = 50\<rparr>, velocity = \<lparr>vx = 2, vy = 0\<rparr>, maxSpeed = 2,
      perceptionRadius = 50, desiredSeparation = 20, radius = 5, wallPerceptionRadius = 30\<rparr>"

definition leaver_after :: Agent where
  "leaver_after = \<lparr>position = \<lparr>vx = 172, vy = 50\<rparr>, velocity = \<lparr>vx = 2, vy = 0\<rparr>, maxSpeed = 2,
      perceptionRadius = 50, desiredSeparation = 20, radius = 5, wallPerceptionRadius = 30\<rparr>"

definition lane_indexed :: Simulation where
  "lane_indexed = lane\<lparr>frame := frame lane + 1, grid := [[[], []], [[], [1]], [[], []], [[], [0]]]\<rparr>"

definition lane_first :: Simulation where
  "lane_first = lane_indexed\<lparr>objects := (objects lane)(1 := stayer_after)\<rparr>"

definition lane_swept :: Simulation where
  "lane_swept = lane_first\<lparr>objects := (objects lane_first)(0 := leaver_after), agents := [1]\<rparr>"

section \<open>Binary64 arithmetic\<close>

text \<open>
  Two claims depend on the rounding of JavaScript numbers: the speed bound of
  \<open>Agent.update\<close> and the zero steering vector of \<open>seekGoal\<close>. They are settled over the
  source's own arithmetic. \<open>rne\<close> rounds a real to the nearest integer, ties to even;
  \<open>fl\<close> rounds a real to the nearest number with a 53-bit significand, ties to even.
  IEEE 754 defines \<open>+\<close>, \<open>-\<close>, \<open>*\<close>, \<open>/\<close> and the square root of binary64 numbers as the
  rounded exact result, so the functions below are the source's functions, operation by
  operation. The exponent of \<open>fl\<close> is not bounded: the agreement holds as long as no
  result overflows or is subnormal, which is so whenever \<open>maxSpeed\<close> and the non-zero
  components involved have magnitudes between \<open>2\<^sup>-\<^sup>1\<^sup>0\<^sup>0\<close> and \<open>2\<^sup>1\<^sup>0\<^sup>0\<close>. \<open>rnd_up\<close> and
  \<open>rnd_dn\<close> are the factors \<open>1 \<plusminus> 2\<^sup>-\<^sup>5\<^sup>3\<close> that bound one rounding; the literal \<open>0.8\<close> of
  the source is the binary64 number \<open>fl 0.8\<close>. \<open>runner\<close> and \<open>mover\<close> are two agents used
  below.
\<close>

definition rne :: "real \<Rightarrow> int" where
  "rne y =
     (let f = \<lfloor>y\<rfloor>; d = y - of_int f
      in if d < 1 / 2 then f
         else if d > 1 / 2 then f + 1
         else if even f then f else f + 1)"

definition fl :: "real \<Rightarrow> real" where
  "fl x =
     (if x = 0 then 0
      else (let e = \<lfloor>log 2 \<bar>x\<bar>\<rfloor> - 52
            in of_int (rne (x / 2 powr of_int e)) * 2 powr of_int e))"

definition rnd_up :: real where
  "rnd_up = 1 + 1 / 2 ^ 53"

definition rnd_dn :: real where
  "rnd_dn = 1 - 1 / 2 ^ 53"

definition Vector_add_b64 :: "Vector \<Rightarrow> Vector \<Rightarrow> Vector" where
  "Vector_add_b64 a b = \<lparr>vx = fl (vx a + vx b), vy = fl (vy a + vy b)\<rparr>"

definition Vector_sub_b64 :: "Vector \<Rightarrow> Vector \<Rightarrow> Vector" where
  "Vector_sub_b64 a b = \<lparr>vx = fl (vx a - vx b), vy = fl (vy a - vy b)\<rparr>"

definition Vector_mult_b64 :: "Vector \<Rightarrow> real \<Rightarrow> Vector" where
  "Vector_mult_b64 v s = \<lparr>vx = fl (vx v * s), vy = fl (vy v * s)\<rparr>"

definition Vector_div_b64 :: "Vector \<Rightarrow> real \<Rightarrow> Vector" where
  "Vector_div_b64 v s = (if s \<noteq> 0 then \<lparr>vx = fl (vx v / s), vy = fl (vy v / s)\<rparr> else v)"

definition Vector_mag_b64 :: "Vector \<Rightarrow> real" where
  "Vector_mag_b64 v = fl (sqrt (fl (fl (vx v * vx v) + fl (vy v * vy v))))"

definition Vector_normalize_b64 :: "Vector \<Rightarrow> Vector" where
  "Vector_normalize_b64 v =
     (let m = Vector_mag_b64 v in if m \<noteq> 0 then Vector_div_b64 v m else v)"

definition Vector_limit_b64 :: "Vector \<Rightarrow> real \<Rightarrow> Vector" where
  "Vector_limit_b64 v mx =
     (let m = Vector_mag_b64 v in
      if m > mx then Vector_mult_b64 (Vector_normalize_b64 v) mx else v)"

definition rectIntersect_b64 :: "Rect \<Rightarrow> Rect \<Rightarrow> bool" where
  "rectIntersect_b64 r1 r2 =
     (\<not> (fl (rx r1 + rw r1) < rx r2 \<or> rx r1 > fl (rx r2 + rw r2) \<or>
         fl (ry r1 + rh r1) < ry r2 \<or> ry r1 > fl (ry r2 + rh r2)))"

definition agentRect_b64 :: "Vector \<Rightarrow> Rect" where
  "agentRect_b64 pos =
     (let agentRadius = 5 in
      \<lparr>rx = fl (vx pos - agentRadius), ry = fl (vy pos - agentRadius),
       rw = fl (agentRadius * 2), rh = fl (agentRadius * 2)\<rparr>)"

fun hitsAny_b64 :: "Rect \<Rightarrow> Rect list \<Rightarrow> bool" where
  "hitsAny_b64 a [] = False"
| "hitsAny_b64 a (r # rs) = (if rectIntersect_b64 a r then True else hitsAny_b64 a rs)"

definition isPositionValid_b64 :: "Environment \<Rightarrow> Vector \<Rightarrow> bool" where
  "isPositionValid_b64 e pos =
     (if hitsAny_b64 (agentRect_b64 pos) (walls e) then False
      else if hitsAny_b64 (agentRect_b64 pos) (restrictedZones e) then False
      else if vx pos < 0 \<or> vx pos > width e \<or> vy pos < 0 \<or> vy pos > height e then False
      else True)"

definition Agent_update_b64 :: "Environment \<Rightarrow> Agent \<Rightarrow> Agent" where
  "Agent_update_b64 e a =
     (let v1 = Vector_limit_b64 (velocity a) (maxSpeed a);
          nextPosition = Vector_add_b64 (position a) v1
      in if \<not> isPositionValid_b64 e nextPosition
         then (let v2 = Vector_mult_b64 v1 (fl 0.8)
               in a\<lparr>velocity := v2, position := Vector_add_b64 (position a) v2\<rparr>)
         else a\<lparr>velocity := v1, position := nextPosition\<rparr>)"

definition seekGoal_b64 :: "Agent \<Rightarrow> Vector \<Rightarrow> Vector" where
  "seekGoal_b64 a goal =
     (let desired = Vector_mult_b64 (Vector_normalize_b64 (Vector_sub_b64 goal (position a)))
                      (maxSpeed a)
      in Vector_sub_b64 desired (velocity a))"

definition setupEnvironment_b64 :: "Environment \<Rightarrow> Environment" where
  "setupEnvironment_b64 e =
     e\<lparr>walls := walls e @
          [\<lparr>rx = 0, ry = 0, rw = width e, rh = 20\<rparr>,
           \<lparr>rx = 0, ry = fl (height e - 20), rw = width e, rh = 20\<rparr>,
           \<lparr>rx = 0, ry = 0, rw = 20, rh = height e\<rparr>,
           \<lparr>rx = 300, ry = 100, rw = 20, rh = 200\<rparr>,
           \<lparr>rx = 300, ry = 400, rw = 20, rh = 200\<rparr>],
       restrictedZones := restrictedZones e @
          [\<lparr>rx = 100, ry = 100, rw = 100, rh = 100\<rparr>]\<rparr>"

definition Environment_new_b64 :: "real \<Rightarrow> real \<Rightarrow> Environment" where
  "Environment_new_b64 w h =
     setupEnvironment_b64
       \<lparr>width = w, height = h, walls = [],
        exit = \<lparr>rx = fl (w - 50), ry = fl (fl (h / 2) - 25), rw = 50, rh = 50\<rparr>,
        restrictedZones = []\<rparr>"

definition runner :: Agent where
  "runner =
     \<lparr>position = \<lparr>vx = 400, vy = 360\<rparr>,
      velocity = \<lparr>vx = 5404319552844595 / 4503599627370496, vy = 2\<rparr>,
      maxSpeed = 2, perceptionRadius = 50, desiredSeparation = 20, radius = 5,
      wallPerceptionRadius = 30\<rparr>"

definition mover :: Agent where
  "mover =
     \<lparr>position = \<lparr>vx = 0, vy = 0\<rparr>, velocity = \<lparr>vx = 2, vy = 0\<rparr>,
      maxSpeed = 2, perceptionRadius = 50, desiredSeparation = 20, radius = 5,
      wallPerceptionRadius = 30\<rparr>"

section \<open>Vector lemmas\<close>

lemma Vector_mag_nonneg: "0 \<le> Vector_mag v"
  by (simp add: Vector_mag_def)

lemma Vector_mag_mult: "Vector_mag (Vector_mult v s) = \<bar>s\<bar> * Vector_mag v"
proof -
  have "vx v * s * (vx v * s) + vy v * s * (vy v * s) = s\<^sup>2 * (vx v * vx v + vy v * vy v)"
    by (simp add: power2_eq_square algebra_simps)
  then show ?thesis
    by (simp add: Vector_mag_def Vector_mult_def real_sqrt_mult)
qed

lemma Vector_mag_normalize:
  assumes "Vector_mag v \<noteq> 0"
  shows "Vector_mag (Vector_normalize v) = 1"
proof -
  let ?m = "Vector_mag v"
  have pos: "0 < ?m" using assms Vector_mag_nonneg [of v] by linarith
  have sq: "?m * ?m = vx v * vx v + vy v * vy v"
    by (simp add: Vector_mag_def)
  have "vx v / ?m * (vx v / ?m) + vy v / ?m * (vy v / ?m)
        = (vx v * vx v + vy v * vy v) / (?m * ?m)"
    by (simp add: add_divide_distrib)
  also have "\<dots> = (?m * ?m) / (?m * ?m)" by (simp only: sq)
  also have "\<dots> = 1" using pos by simp
  finally have "sqrt (vx v / ?m * (vx v / ?m) + vy v / ?m * (vy v / ?m)) = 1"
    by simp
  then show ?thesis
    using assms by (simp add: Vector_normalize_def Vector_div_def Vector_mag_def Let_def)
qed

lemma Vector_mag_zero_iff: "Vector_mag v = 0 \<longleftrightarrow> vx v = 0 \<and> vy v = 0"
proof -
  have "vx v * vx v + vy v * vy v = 0 \<longleftrightarrow> vx v = 0 \<and> vy v = 0"
    using sum_squares_eq_zero_iff [of "vx v" "vy v"] by simp
  then show ?thesis by (simp add: Vector_mag_def)
qed

section \<open>Vector.div and Vector.normalize on zero\<close>

text \<open>
  C9: for every vector, \<open>Vector.div\<close> with a scalar exactly zero leaves both components
  unchanged (a silent no-op), and \<open>Vector.normalize\<close> applied to a vector of magnitude
  exactly zero leaves the vector unchanged.
\<close>

theorem div_normalize_zero_noop:
  "Vector_div v 0 = v \<and> (Vector_mag v = 0 \<longrightarrow> Vector_normalize v = v)"
  by (simp add: Vector_div_def Vector_normalize_def)

theorem div_normalize_zero_noop_witness:
  "Vector_div (Vector_new 3 4) 0 = Vector_new 3 4 \<and>
   Vector_mag (Vector_new 0 0) = 0 \<and> Vector_normalize (Vector_new 0 0) = Vector_new 0 0"
  using div_normalize_zero_noop [of "Vector_new 3 4"] div_normalize_zero_noop [of "Vector_new 0 0"]
  by (simp add: Vector_mag_def Vector_new_def)

section \<open>Alignment with a zero mean velocity\<close>




section \<open>What makes a position invalid\<close>

lemma hitsAny_iff: "hitsAny a rs \<longleftrightarrow> (\<exists>r\<in>set rs. rectIntersect a r)"
  by (induction rs) auto

text \<open>
  C2 as stated (only walls and the boundary box make a position invalid, restricted zones
  never do) fails: in the default environment on an 800 by 600 canvas the point
  \<open>(150, 150)\<close> is inside the boundary box, its agent square overlaps no wall, and
  \<open>isPositionValid\<close> returns false, because the square overlaps the restricted zone.
\<close>

theorem isPositionValid_zone_counterexample:
  "\<not> isPositionValid (Environment_new 800 600) (Vector_new 150 150) \<and>
   \<not> hitsAny (agentRect (Vector_new 150 150)) (walls (Environment_new 800 600)) \<and>
   0 \<le> vx (Vector_new 150 150) \<and> vx (Vector_new 150 150) \<le> width (Environment_new 800 600) \<and>
   0 \<le> vy (Vector_new 150 150) \<and> vy (Vector_new 150 150) \<le> height (Environment_new 800 600)"
  by (simp add: isPositionValid_def Environment_new_def setupEnvironment_def agentRect_def
      rectIntersect_def Vector_new_def)

text \<open>
  C2, amended: \<open>isPositionValid\<close> returns true exactly when the agent-sized square
  overlaps no wall rectangle and no restricted-zone rectangle and the point lies in
  \<open>[0, width] \<times> [0, height]\<close>; restricted zones block like walls.
\<close>

theorem isPositionValid_iff:
  "isPositionValid e pos \<longleftrightarrow>
     \<not> (\<exists>w\<in>set (walls e). rectIntersect (agentRect pos) w) \<and>
     \<not> (\<exists>z\<in>set (restrictedZones e). rectIntersect (agentRect pos) z) \<and>
     0 \<le> vx pos \<and> vx pos \<le> width e \<and> 0 \<le> vy pos \<and> vy pos \<le> height e"
  by (auto simp: isPositionValid_def hitsAny_iff)

theorem isPositionValid_iff_witness:
  "isPositionValid (Environment_new 800 600) (Vector_new 250 300) \<and>
   \<not> isPositionValid (Environment_new 800 600) (Vector_new 305 200) \<and>
   \<not> isPositionValid (Environment_new 800 600) (Vector_new 150 150) \<and>
   \<not> isPositionValid (Environment_new 800 600) (Vector_new 900 300)"
  using isPositionValid_iff [of "Environment_new 800 600" "Vector_new 250 300"]
    isPositionValid_iff [of "Environment_new 800 600" "Vector_new 305 200"]
    isPositionValid_iff [of "Environment_new 800 600" "Vector_new 150 150"]
    isPositionValid_iff [of "Environment_new 800 600" "Vector_new 900 300"]
  by (simp add: Environment_new_def setupEnvironment_def agentRect_def
      rectIntersect_def Vector_new_def)

section \<open>Rebuilding the spatial grid\<close>

lemma rectangular_nth: "rectangular g \<Longrightarrow> c < length g \<Longrightarrow> length (g ! c) = length (g ! 0)"
  by (simp add: rectangular_def list_all_length)

lemma rectangular_shape:
  assumes "rectangular g" and "map length g' = map length g"
  shows "rectangular g'"
proof -
  have len: "length g' = length g" using assms(2) by (metis length_map)
  have nth: "length (g' ! c) = length (g ! c)" if "c < length g" for c
    using that assms(2) len by (metis nth_map)
  show ?thesis
    unfolding rectangular_def list_all_length
  proof (intro allI impI)
    fix c assume c: "c < length g'"
    then have "0 < length g" using len by auto
    then show "length (g' ! c) = length (g' ! 0)"
      using c len nth [of c] nth [of 0] rectangular_nth [OF assms(1), of c] by simp
  qed
qed

lemma inGrid_nat:
  assumes "rectangular g" and "inGrid g c r"
  shows "nat c < length g \<and> nat r < length (g ! nat c) \<and> int (nat c) = c \<and> int (nat r) = r"
proof -
  have c: "nat c < length g" "0 \<le> c" "0 \<le> r" and r: "r < int (length (g ! 0))"
    using assms(2) by (auto simp: inGrid_def)
  have "length (g ! nat c) = length (g ! 0)"
    using rectangular_nth [OF assms(1) c(1)] .
  then show ?thesis using c r by auto
qed

lemma inGrid_int:
  assumes "rectangular g" and "c < length g" and "r < length (g ! c)"
  shows "inGrid g (int c) (int r)"
  using assms rectangular_nth [OF assms(1,2)] by (simp add: inGrid_def)

lemma bucketPush_nth:
  assumes "nat c < length g" and "nat r < length (g ! nat c)"
  shows "\<exists>g'. bucketPush g c r a = Inr g' \<and> map length g' = map length g \<and>
          (\<forall>i<length g. \<forall>j<length (g ! i).
             g' ! i ! j = (if i = nat c \<and> j = nat r then g ! i ! j @ [a] else g ! i ! j))"
proof -
  let ?g' = "g[nat c := (g ! nat c)[nat r := g ! nat c ! nat r @ [a]]]"
  have "bucketPush g c r a = Inr ?g'" using assms by (simp add: bucketPush_def)
  moreover have "map length ?g' = map length g"
    using assms by (simp add: map_update list_update_same_conv)
  moreover have "\<forall>i<length g. \<forall>j<length (g ! i).
      ?g' ! i ! j = (if i = nat c \<and> j = nat r then g ! i ! j @ [a] else g ! i ! j)"
  proof (intro allI impI)
    fix i j assume i: "i < length g" and j: "j < length (g ! i)"
    show "?g' ! i ! j = (if i = nat c \<and> j = nat r then g ! i ! j @ [a] else g ! i ! j)"
    proof (cases "i = nat c")
      case True
      then show ?thesis using i j by (simp add: nth_list_update)
    next
      case False
      then show ?thesis by simp
    qed
  qed
  ultimately show ?thesis by blast
qed

lemma placeAgents_buckets:
  assumes "rectangular g"
  shows "\<exists>g'. placeAgents h as g = Inr g' \<and> map length g' = map length g \<and>
          (\<forall>c<length g. \<forall>r<length (g ! c).
             g' ! c ! r = g ! c ! r @ filter (\<lambda>a. cellOf h a = (int c, int r)) as)"
  using assms
proof (induction as arbitrary: g)
  case Nil
  then show ?case by simp
next
  case (Cons a rest)
  let ?col = "\<lfloor>vx (position (h a)) / gridSize\<rfloor>"
  let ?row = "\<lfloor>vy (position (h a)) / gridSize\<rfloor>"
  have cell: "cellOf h a = (?col, ?row)" by (simp add: cellOf_def)
  show ?case
  proof (cases "inGrid g ?col ?row")
    case True
    from inGrid_nat [OF Cons.prems True]
    have n: "nat ?col < length g" "nat ?row < length (g ! nat ?col)"
      "int (nat ?col) = ?col" "int (nat ?row) = ?row" by auto
    from bucketPush_nth [OF n(1,2), of a] obtain g1 where
      g1: "bucketPush g ?col ?row a = Inr g1" "map length g1 = map length g"
      and g1nth: "\<And>i j. i < length g \<Longrightarrow> j < length (g ! i) \<Longrightarrow>
         g1 ! i ! j = (if i = nat ?col \<and> j = nat ?row then g ! i ! j @ [a] else g ! i ! j)"
      by blast
    have rect1: "rectangular g1" using rectangular_shape [OF Cons.prems g1(2)] .
    from Cons.IH [OF rect1] obtain g' where
      g': "placeAgents h rest g1 = Inr g'" "map length g' = map length g1"
      and g'nth: "\<And>c r. c < length g1 \<Longrightarrow> r < length (g1 ! c) \<Longrightarrow>
         g' ! c ! r = g1 ! c ! r @ filter (\<lambda>a. cellOf h a = (int c, int r)) rest"
      by blast
    have len1: "length g1 = length g" using g1(2) by (metis length_map)
    have len1n: "length (g1 ! c) = length (g ! c)" if "c < length g" for c
      using that g1(2) len1 by (metis nth_map)
    have run: "placeAgents h (a # rest) g = Inr g'"
      using True g1(1) g'(1) by (simp add: Let_def)
    have "g' ! c ! r = g ! c ! r @ filter (\<lambda>a. cellOf h a = (int c, int r)) (a # rest)"
      if c: "c < length g" and r: "r < length (g ! c)" for c r
    proof -
      have eq: "(cellOf h a = (int c, int r)) = (c = nat ?col \<and> r = nat ?row)"
        using n(3,4) by (auto simp: cell)
      show ?thesis
        using g'nth [of c r] g1nth [OF c r] c r len1 len1n [OF c] eq by simp
    qed
    then show ?thesis using run g'(2) g1(2) by simp
  next
    case False
    from Cons.IH [OF Cons.prems] obtain g' where
      g': "placeAgents h rest g = Inr g'" "map length g' = map length g"
      and g'nth: "\<And>c r. c < length g \<Longrightarrow> r < length (g ! c) \<Longrightarrow>
         g' ! c ! r = g ! c ! r @ filter (\<lambda>a. cellOf h a = (int c, int r)) rest"
      by blast
    have run: "placeAgents h (a # rest) g = Inr g'"
      using False g'(1) by (simp add: Let_def)
    have "g' ! c ! r = g ! c ! r @ filter (\<lambda>a. cellOf h a = (int c, int r)) (a # rest)"
      if c: "c < length g" and r: "r < length (g ! c)" for c r
    proof -
      have "cellOf h a \<noteq> (int c, int r)"
        using False inGrid_int [OF Cons.prems c r] by (auto simp: cell)
      then show ?thesis using g'nth [OF c r] by simp
    qed
    then show ?thesis using run g'(2) by simp
  qed
qed

lemma rectangular_cleared: "rectangular g \<Longrightarrow> rectangular (map (map (\<lambda>bucket. [])) g)"
  by (rule rectangular_shape [of g]) (simp_all add: comp_def)

lemma updateGrid_filter:
  assumes "rectangular (grid s)"
  shows "\<exists>g'. updateGrid s = Inr (s\<lparr>grid := g'\<rparr>) \<and>
          map length g' = map length (grid s) \<and>
          (\<forall>c<length (grid s). \<forall>r<length (grid s ! c).
             g' ! c ! r = filter (\<lambda>a. cellOf (objects s) a = (int c, int r)) (agents s))"
proof -
  let ?g0 = "map (map (\<lambda>bucket. [])) (grid s) :: grid"
  from placeAgents_buckets [OF rectangular_cleared [OF assms], of "objects s" "agents s"]
  obtain g' where all: "placeAgents (objects s) (agents s) ?g0 = Inr g' \<and>
       map length g' = map length ?g0 \<and>
       (\<forall>c<length ?g0. \<forall>r<length (?g0 ! c).
          g' ! c ! r = ?g0 ! c ! r @ filter (\<lambda>a. cellOf (objects s) a = (int c, int r)) (agents s))"
    ..
  note g' = conjunct1 [OF all] conjunct1 [OF conjunct2 [OF all]]
  note nth = conjunct2 [OF conjunct2 [OF all]]
  have "updateGrid s = Inr (s\<lparr>grid := g'\<rparr>)" using g'(1) by (simp add: updateGrid_def)
  moreover have "map length g' = map length (grid s)" using g'(2) by (simp add: comp_def)
  moreover have "g' ! c ! r = filter (\<lambda>a. cellOf (objects s) a = (int c, int r)) (agents s)"
    if "c < length (grid s)" "r < length (grid s ! c)" for c r
    using nth that by simp
  ultimately show ?thesis by blast
qed

text \<open>
  C4: after \<open>updateGrid\<close> (on the rectangular grid that \<open>setupGrid\<close> builds, with an
  agent list without repetitions) every bucket holds, without duplicates, exactly the
  active agents whose floored position \<open>(floor(x / gridSize), floor(y / gridSize))\<close> equals
  the bucket's coordinates; an agent whose cell is within the grid's bounds is in that
  bucket and in no other one, and an agent whose cell is out of range is in no bucket.
\<close>

theorem updateGrid_rebuild:
  assumes "rectangular (grid s)" and "distinct (agents s)"
  shows "\<exists>s'. updateGrid s = Inr s' \<and> agents s' = agents s \<and> objects s' = objects s \<and>
     map length (grid s') = map length (grid s) \<and>
     (\<forall>c<length (grid s'). \<forall>r<length (grid s' ! c).
        distinct (grid s' ! c ! r) \<and>
        set (grid s' ! c ! r) = {a \<in> set (agents s'). cellOf (objects s') a = (int c, int r)}) \<and>
     (\<forall>a\<in>set (agents s').
        let col = fst (cellOf (objects s') a); row = snd (cellOf (objects s') a)
        in if inGrid (grid s') col row
           then nat col < length (grid s') \<and> nat row < length (grid s' ! nat col) \<and>
                a \<in> set (grid s' ! nat col ! nat row) \<and>
                (\<forall>c<length (grid s'). \<forall>r<length (grid s' ! c).
                   a \<in> set (grid s' ! c ! r) \<longrightarrow> c = nat col \<and> r = nat row)
           else (\<forall>c<length (grid s'). \<forall>r<length (grid s' ! c). a \<notin> set (grid s' ! c ! r)))"
proof -
  from updateGrid_filter [OF assms(1)] obtain g' where
    run0: "updateGrid s = Inr (s\<lparr>grid := g'\<rparr>)"
    and shape0: "map length g' = map length (grid s)"
    and nth0: "\<forall>c<length (grid s). \<forall>r<length (grid s ! c).
       g' ! c ! r = filter (\<lambda>a. cellOf (objects s) a = (int c, int r)) (agents s)"
    by blast
  define s' where "s' = s\<lparr>grid := g'\<rparr>"
  have run: "updateGrid s = Inr s'" using run0 by (simp add: s'_def)
  have ag: "agents s' = agents s" and ob: "objects s' = objects s" and gr: "grid s' = g'"
    by (simp_all add: s'_def)
  have shape: "map length (grid s') = map length (grid s)" using shape0 gr by simp
  have nth: "\<forall>c<length (grid s). \<forall>r<length (grid s ! c).
       grid s' ! c ! r = filter (\<lambda>a. cellOf (objects s) a = (int c, int r)) (agents s)"
    using nth0 gr by simp
  have len: "length (grid s') = length (grid s)" using shape by (rule map_eq_imp_length_eq)
  have lenc: "length (grid s' ! c) = length (grid s ! c)" if "c < length (grid s)" for c
  proof -
    have "map length (grid s') ! c = map length (grid s) ! c" using shape by simp
    then show ?thesis using that len by simp
  qed
  have rect': "rectangular (grid s')" using rectangular_shape [OF assms(1) shape] .
  have bucket: "grid s' ! c ! r = filter (\<lambda>a. cellOf (objects s') a = (int c, int r)) (agents s')"
    if "c < length (grid s')" "r < length (grid s' ! c)" for c r
    using nth that len lenc [of c] ag ob by simp
  have part1: "\<forall>c<length (grid s'). \<forall>r<length (grid s' ! c).
        distinct (grid s' ! c ! r) \<and>
        set (grid s' ! c ! r) = {a \<in> set (agents s'). cellOf (objects s') a = (int c, int r)}"
  proof (intro allI impI)
    fix c r assume c: "c < length (grid s')" and r: "r < length (grid s' ! c)"
    have "distinct (agents s')" using assms(2) ag by simp
    then show "distinct (grid s' ! c ! r) \<and>
        set (grid s' ! c ! r) = {a \<in> set (agents s'). cellOf (objects s') a = (int c, int r)}"
      unfolding bucket [OF c r] by simp
  qed
  have part2: "\<forall>a\<in>set (agents s').
        let col = fst (cellOf (objects s') a); row = snd (cellOf (objects s') a)
        in if inGrid (grid s') col row
           then nat col < length (grid s') \<and> nat row < length (grid s' ! nat col) \<and>
                a \<in> set (grid s' ! nat col ! nat row) \<and>
                (\<forall>c<length (grid s'). \<forall>r<length (grid s' ! c).
                   a \<in> set (grid s' ! c ! r) \<longrightarrow> c = nat col \<and> r = nat row)
           else (\<forall>c<length (grid s'). \<forall>r<length (grid s' ! c). a \<notin> set (grid s' ! c ! r))"
  proof
    fix a assume a: "a \<in> set (agents s')"
    let ?col = "fst (cellOf (objects s') a)" and ?row = "snd (cellOf (objects s') a)"
    have only: "\<forall>c<length (grid s'). \<forall>r<length (grid s' ! c).
        a \<in> set (grid s' ! c ! r) \<longrightarrow>
        c = nat ?col \<and> r = nat ?row \<and> inGrid (grid s') ?col ?row"
    proof (intro allI impI)
      fix c r assume c: "c < length (grid s')" and r: "r < length (grid s' ! c)"
        and mem: "a \<in> set (grid s' ! c ! r)"
      have "cellOf (objects s') a = (int c, int r)" using mem bucket [OF c r] by simp
      then show "c = nat ?col \<and> r = nat ?row \<and> inGrid (grid s') ?col ?row"
        using inGrid_int [OF rect' c r] by simp
    qed
    show "let col = ?col; row = ?row
        in if inGrid (grid s') col row
           then nat col < length (grid s') \<and> nat row < length (grid s' ! nat col) \<and>
                a \<in> set (grid s' ! nat col ! nat row) \<and>
                (\<forall>c<length (grid s'). \<forall>r<length (grid s' ! c).
                   a \<in> set (grid s' ! c ! r) \<longrightarrow> c = nat col \<and> r = nat row)
           else (\<forall>c<length (grid s'). \<forall>r<length (grid s' ! c). a \<notin> set (grid s' ! c ! r))"
    proof (cases "inGrid (grid s') ?col ?row")
      case True
      from inGrid_nat [OF rect' True]
      have n: "nat ?col < length (grid s')" "nat ?row < length (grid s' ! nat ?col)"
        "int (nat ?col) = ?col" "int (nat ?row) = ?row" by auto
      have mem: "a \<in> set (grid s' ! nat ?col ! nat ?row)"
        using bucket [OF n(1,2)] a n(3,4) by simp
      have uniq: "\<forall>c<length (grid s'). \<forall>r<length (grid s' ! c).
                   a \<in> set (grid s' ! c ! r) \<longrightarrow> c = nat ?col \<and> r = nat ?row"
      proof (intro allI impI)
        fix c r assume "c < length (grid s')" "r < length (grid s' ! c)" "a \<in> set (grid s' ! c ! r)"
        from only [rule_format, OF this] show "c = nat ?col \<and> r = nat ?row" by (intro conjI) (elim conjE, assumption)+
      qed
      show ?thesis
        unfolding Let_def by (simp only: True if_True) (intro conjI n(1,2) mem uniq)
    next
      case False
      have none: "\<forall>c<length (grid s'). \<forall>r<length (grid s' ! c). a \<notin> set (grid s' ! c ! r)"
      proof (intro allI impI notI)
        fix c r assume "c < length (grid s')" "r < length (grid s' ! c)" "a \<in> set (grid s' ! c ! r)"
        from only [rule_format, OF this] have "inGrid (grid s') ?col ?row" by (elim conjE)
        with False show False by (rule notE)
      qed
      show ?thesis
        unfolding Let_def by (simp only: False if_False) (rule none)
    qed
  qed
  show ?thesis by (intro exI [of _ s'] conjI run ag ob shape part1 part2)
qed

lemma rectangular_replicate: "rectangular (replicate n (replicate m []))"
  unfolding rectangular_def list_all_length
proof (intro allI impI)
  fix i assume "i < length (replicate n (replicate m []))"
  then have "i < n" and "0 < n" by auto
  then show "length (replicate n (replicate m []) ! i) = length (replicate n (replicate m []) ! 0)"
    by simp
qed

lemma setupGrid_rectangular: "rectangular (setupGrid cw ch)"
  by (simp add: setupGrid_def Let_def rectangular_replicate)

theorem updateGrid_rebuild_witness:
  "rectangular (grid (Simulation_new 100 100 0
      [Agent_new 75 50 2 50 20, Agent_new 60 60 2 50 20, Agent_new (-10) 50 2 50 20])) \<and>
   distinct (agents (Simulation_new 100 100 0
      [Agent_new 75 50 2 50 20, Agent_new 60 60 2 50 20, Agent_new (-10) 50 2 50 20])) \<and>
   (\<exists>s'. updateGrid (Simulation_new 100 100 0
      [Agent_new 75 50 2 50 20, Agent_new 60 60 2 50 20, Agent_new (-10) 50 2 50 20]) = Inr s' \<and>
      set (grid s' ! 1 ! 1) = {0, 1} \<and> set (grid s' ! 0 ! 1) = {})"
proof -
  let ?s = "Simulation_new 100 100 0
      [Agent_new 75 50 2 50 20, Agent_new 60 60 2 50 20, Agent_new (-10) 50 2 50 20]"
  have g: "grid ?s = [[[], []], [[], []]]"
    by (simp add: Simulation_new_def setupGrid_def gridSize_def numeral_2_eq_2)
  have h1: "rectangular (grid ?s)" by (simp add: g rectangular_def)
  have h2: "distinct (agents ?s)" by (simp add: Simulation_new_def)
  have ags: "agents ?s = [0, 1, 2]" by (simp add: Simulation_new_def upt_rec)
  have c0: "cellOf (objects ?s) 0 = (1, 1)" and c1: "cellOf (objects ?s) 1 = (1, 1)"
    and c2: "cellOf (objects ?s) 2 = (- 1, 1)"
    by (simp_all add: cellOf_def Simulation_new_def Agent_new_def Vector_new_def gridSize_def)
  from updateGrid_rebuild [OF h1 h2] obtain s' where
    run: "updateGrid ?s = Inr s'" and ag: "agents s' = agents ?s" and ob: "objects s' = objects ?s"
    and shape: "map length (grid s') = map length (grid ?s)"
    and b: "\<forall>c<length (grid s'). \<forall>r<length (grid s' ! c).
        distinct (grid s' ! c ! r) \<and>
        set (grid s' ! c ! r) = {a \<in> set (agents s'). cellOf (objects s') a = (int c, int r)}"
    by blast
  have len: "length (grid s') = 2"
    using map_eq_imp_length_eq [OF shape] g by simp
  have "map length (grid s') ! 0 = 2" "map length (grid s') ! 1 = 2"
    using shape g by simp_all
  then have l0: "length (grid s' ! 0) = 2" and l1: "length (grid s' ! 1) = 2"
    using len by simp_all
  have "set (grid s' ! 1 ! 1) = {a \<in> set (agents s'). cellOf (objects s') a = (int 1, int 1)}"
    using b len l1 by simp
  then have b11: "set (grid s' ! 1 ! 1) = {0, 1}"
    unfolding ag ob ags using c0 c1 c2 by auto
  have "set (grid s' ! 0 ! 1) = {a \<in> set (agents s'). cellOf (objects s') a = (int 0, int 1)}"
    using b len l0 by simp
  then have b01: "set (grid s' ! 0 ! 1) = {}"
    unfolding ag ob ags using c0 c1 c2 by auto
  show ?thesis using h1 h2 run b11 b01 by blast
qed

section \<open>The capped neighbour query\<close>

lemma capped_Nil: "capped nb [] = (if length nb \<ge> 10 then Return (take 10 nb) else Continue nb)"
  by (simp add: capped_def)

lemma capped_append:
  "(case capped nb xs of Continue nb' \<Rightarrow> capped nb' ys | Return nb' \<Rightarrow> Return nb' | Throw e \<Rightarrow> Throw e)
   = capped nb (xs @ ys)"
  by (simp add: capped_def)

lemma scanBucket_Cons:
  "scanBucket h a (other # rest) nb =
     (if isNeighbor h a other
      then (if length nb \<ge> 9 then Return (nb @ [other]) else scanBucket h a rest (nb @ [other]))
      else scanBucket h a rest nb)"
  by (simp add: isNeighbor_def Let_def)

lemma scanBucket_capped:
  "length nb < 10 \<Longrightarrow> scanBucket h a bucket nb = capped nb (filter (isNeighbor h a) bucket)"
proof (induction bucket arbitrary: nb)
  case Nil
  then show ?case by (simp add: capped_def)
next
  case (Cons other rest)
  show ?case
  proof (cases "isNeighbor h a other")
    case False
    then show ?thesis using Cons by (simp only: scanBucket_Cons if_False filter.simps)
  next
    case True
    show ?thesis
    proof (cases "length nb \<ge> 9")
      case full: True
      then have "length nb = 9" using Cons.prems by simp
      then show ?thesis using True by (simp add: scanBucket_Cons capped_def del: scanBucket.simps)
    next
      case notfull: False
      then have "length (nb @ [other]) < 10" by simp
      from Cons.IH [OF this] show ?thesis
        using True notfull by (simp add: scanBucket_Cons capped_def del: scanBucket.simps)
    qed
  qed
qed

lemma scanCell_capped:
  assumes "rectangular g" and "length nb < 10"
  shows "scanCell g h a c r nb = capped nb (filter (isNeighbor h a) (bucketAt g c r))"
proof (cases "inGrid g c r")
  case True
  from inGrid_nat [OF assms(1) True] have "nat r < length (g ! nat c)" by simp
  then show ?thesis
    using True scanBucket_capped [OF assms(2)] by (simp add: scanCell_def bucketAt_def)
next
  case False
  then show ?thesis using assms(2) by (simp add: scanCell_def bucketAt_def capped_def)
qed

lemma scanRows_capped:
  assumes "rectangular g"
  shows "length nb < 10 \<Longrightarrow>
    scanRows g h a c rs nb
      = capped nb (concat (map (\<lambda>r. filter (isNeighbor h a) (bucketAt g c r)) rs))"
proof (induction rs arbitrary: nb)
  case Nil
  then show ?case by (simp add: capped_def)
next
  case (Cons r rs)
  let ?xs = "filter (isNeighbor h a) (bucketAt g c r)"
  let ?ys = "concat (map (\<lambda>r. filter (isNeighbor h a) (bucketAt g c r)) rs)"
  have cell: "scanCell g h a c r nb = capped nb ?xs"
    using scanCell_capped [OF assms Cons.prems] .
  have "scanRows g h a c (r # rs) nb
        = (case capped nb ?xs of Continue nb' \<Rightarrow> capped nb' ?ys
           | Return nb' \<Rightarrow> Return nb' | Throw e \<Rightarrow> Throw e)"
  proof (cases "length (nb @ ?xs) \<ge> 10")
    case True
    then show ?thesis by (simp add: cell capped_def)
  next
    case False
    then have "length (nb @ ?xs) < 10" by simp
    from Cons.IH [OF this] show ?thesis using False by (simp add: cell capped_def)
  qed
  then show ?case by (simp add: capped_append)
qed

lemma scanCols_capped:
  assumes "rectangular g"
  shows "length nb < 10 \<Longrightarrow>
    scanCols g h a cs rs nb
      = capped nb (concat (map (\<lambda>c. concat (map (\<lambda>r. filter (isNeighbor h a) (bucketAt g c r)) rs)) cs))"
proof (induction cs arbitrary: nb)
  case Nil
  then show ?case by (simp add: capped_def)
next
  case (Cons c cs)
  let ?xs = "concat (map (\<lambda>r. filter (isNeighbor h a) (bucketAt g c r)) rs)"
  let ?ys = "concat (map (\<lambda>c. concat (map (\<lambda>r. filter (isNeighbor h a) (bucketAt g c r)) rs)) cs)"
  have row: "scanRows g h a c rs nb = capped nb ?xs"
    using scanRows_capped [OF assms Cons.prems] .
  have "scanCols g h a (c # cs) rs nb
        = (case capped nb ?xs of Continue nb' \<Rightarrow> capped nb' ?ys
           | Return nb' \<Rightarrow> Return nb' | Throw e \<Rightarrow> Throw e)"
  proof (cases "length (nb @ ?xs) \<ge> 10")
    case True
    then show ?thesis by (simp add: row capped_def)
  next
    case False
    then have "length (nb @ ?xs) < 10" by simp
    from Cons.IH [OF this] show ?thesis using False by (simp add: row capped_def)
  qed
  then show ?case by (simp add: capped_append)
qed

lemma getNeighbors_take:
  assumes "rectangular g"
  shows "getNeighbors g h a = Inr (take 10 (scanOrder g h a))"
proof -
  have "scanCols g h a cs rs [] 
        = capped [] (concat (map (\<lambda>c. concat (map (\<lambda>r. filter (isNeighbor h a) (bucketAt g c r)) rs)) cs))"
    for cs rs
    using scanCols_capped [OF assms, of "[]"] by simp
  then show ?thesis
    by (simp add: getNeighbors_def scanOrder_def Let_def capped_def comp_def)
qed

lemma scanOrder_neighbors: "other \<in> set (scanOrder g h a) \<Longrightarrow> isNeighbor h a other"
  by (auto simp: scanOrder_def Let_def)

text \<open>
  C5: on a rectangular grid \<open>getNeighbors\<close> returns a list of at most 10 agents, each
  distinct from the querying agent and at Euclidean distance strictly below the querying
  agent's \<open>perceptionRadius\<close>; the list is the first ten matches of the scan (all of them
  when there are fewer), so the scan stops as soon as ten matches are collected.
\<close>

theorem getNeighbors_capped:
  assumes "rectangular g"
  shows "\<exists>ns. getNeighbors g h a = Inr ns \<and> length ns \<le> 10 \<and>
      (\<forall>other\<in>set ns. other \<noteq> a \<and>
         Vector_dist (position (h a)) (position (h other)) < perceptionRadius (h a)) \<and>
      ns = take 10 (scanOrder g h a)"
proof -
  let ?ns = "take 10 (scanOrder g h a)"
  have "\<forall>other\<in>set ?ns. other \<noteq> a \<and>
         Vector_dist (position (h a)) (position (h other)) < perceptionRadius (h a)"
  proof
    fix other assume "other \<in> set ?ns"
    then have "other \<in> set (scanOrder g h a)" by (rule in_set_takeD)
    then show "other \<noteq> a \<and>
         Vector_dist (position (h a)) (position (h other)) < perceptionRadius (h a)"
      using scanOrder_neighbors [of other g h a] by (simp add: isNeighbor_def)
  qed
  moreover have "length ?ns \<le> 10" by simp
  ultimately show ?thesis using getNeighbors_take [OF assms, of h a] by blast
qed

theorem getNeighbors_capped_witness:
  "rectangular [[[0, 1, 2]]] \<and>
   (\<exists>ns. getNeighbors [[[0, 1, 2]]]
            (\<lambda>k. if k = 1 then Agent_new 13 14 2 50 20 else Agent_new 10 10 2 50 20) 0 = Inr ns \<and>
         length ns \<le> 10 \<and> (\<forall>other\<in>set ns. other \<noteq> 0))"
proof -
  have h: "rectangular [[[0::nat, 1, 2]]]" by (simp add: rectangular_def)
  show ?thesis
    using h getNeighbors_capped [OF h, of "\<lambda>k. if k = 1 then Agent_new 13 14 2 50 20 else Agent_new 10 10 2 50 20" 0]
    by blast
qed

section \<open>One frame of the simulation\<close>

lemma Vector_mag_limit_abs: "Vector_mag (Vector_limit v mx) \<le> \<bar>mx\<bar>"
proof (cases "Vector_mag v > mx")
  case True
  show ?thesis
  proof (cases "Vector_mag v = 0")
    case True
    then have "Vector_normalize v = v" by (simp add: Vector_normalize_def)
    then have "Vector_mag (Vector_mult (Vector_normalize v) mx) = 0"
      using True by (simp add: Vector_mag_mult)
    then show ?thesis using \<open>Vector_mag v > mx\<close> by (simp add: Vector_limit_def Let_def)
  next
    case False
    then have "Vector_mag (Vector_mult (Vector_normalize v) mx) = \<bar>mx\<bar>"
      by (simp add: Vector_mag_mult Vector_mag_normalize)
    then show ?thesis using True by (simp add: Vector_limit_def Let_def)
  qed
next
  case False
  then show ?thesis by (simp add: Vector_limit_def Let_def)
qed

lemma Vector_dist_add: "Vector_dist (Vector_add p v) p = Vector_mag v"
  by (simp add: Vector_dist_def Vector_add_def Vector_mag_def Let_def)

lemma Agent_update_step:
  "Vector_dist (position (Agent_update e ag)) (position ag) \<le> \<bar>maxSpeed ag\<bar>"
proof -
  let ?v1 = "Vector_limit (velocity ag) (maxSpeed ag)"
  have b1: "Vector_mag ?v1 \<le> \<bar>maxSpeed ag\<bar>" by (rule Vector_mag_limit_abs)
  have "Vector_mag (Vector_mult ?v1 0.8) = 0.8 * Vector_mag ?v1"
    by (simp add: Vector_mag_mult)
  also have "\<dots> \<le> Vector_mag ?v1" using Vector_mag_nonneg [of ?v1] by simp
  finally have b2: "Vector_mag (Vector_mult ?v1 0.8) \<le> \<bar>maxSpeed ag\<bar>" using b1 by linarith
  show ?thesis using b1 b2 by (simp add: Agent_update_def Let_def Vector_dist_add)
qed

lemma at_exit_after_update:
  assumes "position ag = exitCenter e" and "\<bar>maxSpeed ag\<bar> < 10"
  shows "isAtExit e (position (Agent_update e (applyForce ag force))) 10"
proof -
  let ?ag = "applyForce ag force"
  have "position ?ag = exitCenter e" "maxSpeed ?ag = maxSpeed ag"
    using assms(1) by (simp_all add: applyForce_def)
  then show ?thesis
    using Agent_update_step [of e ?ag] assms(2) by (simp add: isAtExit_def)
qed

lemma agentStep_Inr:
  assumes "agentStep s i acc = Inr (s1, acc1)"
  shows "i < length (agents s) \<and>
    (\<exists>force. let a = agents s ! i;
                 agent' = Agent_update (env s) (applyForce (objects s a) force);
                 s0 = s\<lparr>objects := (objects s)(a := agent')\<rparr>
             in s1 = (if isAtExit (env s) (position agent') 10
                      then s0\<lparr>agents := take i (agents s) @ drop (Suc i) (agents s)\<rparr>
                      else s0))"
proof -
  have i: "i < length (agents s)"
    using assms by (simp add: agentStep_def split: if_splits)
  obtain refs where "getNeighbors (grid s) (objects s) (agents s ! i) = Inr refs"
    using assms i by (cases "getNeighbors (grid s) (objects s) (agents s ! i)") (simp_all add: agentStep_def)
  then show ?thesis
    using assms i unfolding agentStep_def Let_def by (auto split: if_splits)
qed

lemma agentStep_total:
  assumes "rectangular (grid s)" and "i < length (agents s)"
  shows "\<exists>r. agentStep s i acc = Inr r"
  using assms by (simp add: agentStep_def getNeighbors_take Let_def)


lemma sweep_Suc_Inr:
  assumes "sweep (Suc i) (s, acc) = Inr r"
  obtains s1 acc1 where "agentStep s i acc = Inr (s1, acc1)" and "sweep i (s1, acc1) = Inr r"
  using assms by (cases "agentStep s i acc") auto

lemma agentStep_agents:
  assumes "agentStep s i acc = Inr (s1, acc1)"
  shows "i < length (agents s)"
    and "agents s1 = agents s \<or> agents s1 = take i (agents s) @ drop (Suc i) (agents s)"
    and "env s1 = env s" and "grid s1 = grid s" and "params s1 = params s"
    and "\<And>b. b \<noteq> agents s ! i \<Longrightarrow> objects s1 b = objects s b"
  using agentStep_Inr [OF assms] by (auto simp: Let_def split: if_splits)

lemma agentStep_exit:
  assumes "agentStep s i acc = Inr (s1, acc1)"
    and "position (objects s (agents s ! i)) = exitCenter (env s)"
    and "\<bar>maxSpeed (objects s (agents s ! i))\<bar> < 10"
  shows "agents s1 = take i (agents s) @ drop (Suc i) (agents s)"
  using agentStep_Inr [OF assms(1)] at_exit_after_update [OF assms(2,3)]
  by (auto simp: Let_def)

lemma sweep_subset:
  "sweep i (s, acc) = Inr (s', acc') \<Longrightarrow> set (agents s') \<subseteq> set (agents s)"
proof (induction i arbitrary: s acc)
  case 0
  then show ?case by simp
next
  case (Suc i)
  from Suc.prems obtain s1 acc1 where
    step: "agentStep s i acc = Inr (s1, acc1)" and rest: "sweep i (s1, acc1) = Inr (s', acc')"
    by (rule sweep_Suc_Inr)
  have "set (agents s1) \<subseteq> set (agents s)"
    using agentStep_agents(2) [OF step] set_take_subset [of i "agents s"]
      set_drop_subset [of "Suc i" "agents s"] by auto
  then show ?case using Suc.IH [OF rest] by blast
qed

lemma sweep_total:
  "rectangular (grid s) \<Longrightarrow> i \<le> length (agents s) \<Longrightarrow> \<exists>r. sweep i (s, acc) = Inr r"
proof (induction i arbitrary: s acc)
  case 0
  then show ?case by simp
next
  case (Suc i)
  then have i: "i < length (agents s)" by simp
  from agentStep_total [OF Suc.prems(1) i, of acc] obtain s1 acc1 where
    step: "agentStep s i acc = Inr (s1, acc1)" by (metis surj_pair)
  have "rectangular (grid s1)" using agentStep_agents(4) [OF step] Suc.prems(1) by simp
  moreover have "i \<le> length (agents s1)"
    using agentStep_agents(2) [OF step] i by auto
  ultimately obtain r where "sweep i (s1, acc1) = Inr r" using Suc.IH by blast
  then have "sweep (Suc i) (s, acc) = Inr r" using step by simp
  then show ?case by (rule exI)
qed

lemma sweep_fields:
  "sweep i (s, acc) = Inr (s', acc') \<Longrightarrow> env s' = env s \<and> grid s' = grid s \<and> params s' = params s"
proof (induction i arbitrary: s acc)
  case 0
  then show ?case by simp
next
  case (Suc i)
  from Suc.prems obtain s1 acc1 where
    step: "agentStep s i acc = Inr (s1, acc1)" and rest: "sweep i (s1, acc1) = Inr (s', acc')"
    by (rule sweep_Suc_Inr)
  show ?case using Suc.IH [OF rest] agentStep_agents(3-5) [OF step] by simp
qed

lemma sweep_removes:
  "sweep i (s, acc) = Inr (s', acc') \<Longrightarrow> k < i \<Longrightarrow> i \<le> length (agents s) \<Longrightarrow>
   distinct (take i (agents s)) \<Longrightarrow> agents s ! k = a \<Longrightarrow> a \<notin> set (drop i (agents s)) \<Longrightarrow>
   position (objects s a) = exitCenter (env s) \<Longrightarrow> \<bar>maxSpeed (objects s a)\<bar> < 10 \<Longrightarrow>
   a \<notin> set (agents s')"
proof (induction i arbitrary: s acc)
  case 0
  then show ?case by simp
next
  case (Suc i)
  let ?xs = "agents s"
  from Suc.prems(1) obtain s1 acc1 where
    step: "agentStep s i acc = Inr (s1, acc1)" and rest: "sweep i (s1, acc1) = Inr (s', acc')"
    by (rule sweep_Suc_Inr)
  have i: "i < length ?xs" using Suc.prems(3) by simp
  have tk: "take (Suc i) ?xs = take i ?xs @ [?xs ! i]" using i by (rule take_Suc_conv_app_nth)
  have d: "distinct (take i ?xs)" and notin: "?xs ! i \<notin> set (take i ?xs)"
    using Suc.prems(4) tk by simp_all
  have later: "a \<notin> set (drop (Suc i) ?xs)" using Suc.prems(6) .
  show ?case
  proof (cases "k = i")
    case True
    then have a: "?xs ! i = a" using Suc.prems(5) by simp
    have "agents s1 = take i ?xs @ drop (Suc i) ?xs"
      using agentStep_exit [OF step] a Suc.prems(7,8) by simp
    then have "a \<notin> set (agents s1)" using notin a later by simp
    then show ?thesis using sweep_subset [OF rest] by blast
  next
    case False
    then have k: "k < i" using Suc.prems(2) by simp
    have ak: "a \<in> set (take i ?xs)"
      using k i Suc.prems(5) by (metis in_set_conv_nth length_take min.absorb2 less_imp_le nth_take)
    then have ne: "a \<noteq> ?xs ! i" using notin by auto
    have obj: "objects s1 a = objects s a" using agentStep_agents(6) [OF step ne] .
    have envs: "env s1 = env s" using agentStep_agents(3) [OF step] .
    have shape: "agents s1 = ?xs \<or> agents s1 = take i ?xs @ drop (Suc i) ?xs"
      using agentStep_agents(2) [OF step] .
    have p1: "i \<le> length (agents s1)" using shape i by auto
    have p2: "take i (agents s1) = take i ?xs" using shape i by auto
    have p3: "agents s1 ! k = a"
      using p2 k Suc.prems(5) by (metis nth_take)
    have "drop i ?xs = ?xs ! i # drop (Suc i) ?xs" using i by (simp add: Cons_nth_drop_Suc)
    then have p4: "a \<notin> set (drop i (agents s1))"
      using shape i ne later by auto
    show ?thesis
      using Suc.IH [OF rest k p1 _ p3 p4] p2 d obj envs Suc.prems(7,8) by simp
  qed
qed

lemma densityLoop_total:
  "rectangular g \<Longrightarrow> \<exists>d. densityLoop g h as m = Inr d"
  by (induction as arbitrary: m) (simp_all add: getNeighbors_take Let_def)

lemma Simulation_update_Inr:
  assumes "rectangular (grid s)"
  shows "\<exists>g' s2 totalSpeed jam s'.
     map length g' = map length (grid s) \<and>
     updateGrid (s\<lparr>frame := frame s + 1\<rparr>) = Inr (s\<lparr>frame := frame s + 1, grid := g'\<rparr>) \<and>
     sweep (length (agents s)) (s\<lparr>frame := frame s + 1, grid := g'\<rparr>, 0, 0)
       = Inr (s2, totalSpeed, jam) \<and>
     Simulation_update now s = Inr s' \<and> agents s' = agents s2 \<and> objects s' = objects s2 \<and>
     env s' = env s2 \<and> params s' = params s2 \<and> grid s' = grid s2 \<and>
     averageSpeed s' = Some (if length (agents s2) > 0
                             then totalSpeed / real (length (agents s2)) else 0)"
proof -
  let ?s0 = "s\<lparr>frame := frame s + 1\<rparr>"
  have r0: "rectangular (grid ?s0)" using assms by simp
  from updateGrid_filter [OF r0] obtain g' where
    ug: "updateGrid ?s0 = Inr (?s0\<lparr>grid := g'\<rparr>)" and shape: "map length g' = map length (grid s)"
    by auto
  let ?s1 = "?s0\<lparr>grid := g'\<rparr>"
  have r1: "rectangular (grid ?s1)" using rectangular_shape [OF assms shape] by simp
  have "length (agents s) \<le> length (agents ?s1)" by simp
  from sweep_total [OF r1 this, of "(0, 0)"] obtain s2 totalSpeed jam where
    sw: "sweep (length (agents s)) (?s1, 0, 0) = Inr (s2, totalSpeed, jam)"
    by (metis surj_pair)
  have r2: "rectangular (grid s2)" using sweep_fields [OF sw] r1 by simp
  from densityLoop_total [OF r2] obtain d where
    dl: "calculateMaxDensity s2 = Inr d" unfolding calculateMaxDensity_def by blast
  have sw': "sweep (length (agents ?s1)) (?s1, 0, 0) = Inr (s2, totalSpeed, jam)"
    using sw by simp
  define s' where "s' =
     (let s3 = s2\<lparr>maxDensity := js_max (maxDensity s2) d,
                  jamCount := jamCount s2 + (if jam > 0 then 1 else 0)\<rparr>;
          s4 = (if length (agents s3) = 0
                then s3\<lparr>console := console s3 @
                       [\<lparr>report_frames = frame s3,
                         report_seconds = (now - startTime s3) / 1000,
                         report_maxDensity = maxDensity s3,
                         report_jamCount = jamCount s3\<rparr>]\<rparr>
                else s3)
      in s4\<lparr>averageSpeed :=
           Some (if length (agents s4) > 0
                 then totalSpeed / real (length (agents s4)) else 0)\<rparr>)"
  have run: "Simulation_update now s = Inr s'"
    by (simp only: Simulation_update_def ug sum.case sw' prod.case dl s'_def Let_def)
  have f: "agents s' = agents s2" "objects s' = objects s2" "env s' = env s2"
      "params s' = params s2" "grid s' = grid s2"
      "averageSpeed s' = Some (if length (agents s2) > 0
                             then totalSpeed / real (length (agents s2)) else 0)"
    by (simp_all add: s'_def Let_def)
  show ?thesis
    by (intro exI [of _ g'] exI [of _ s2] exI [of _ totalSpeed] exI [of _ jam] exI [of _ s']
        conjI shape ug sw run f)
qed

text \<open>
  C3: an agent of the active list whose position is the exact centre of the exit rectangle
  is no longer in the active list after one \<open>Simulation.update\<close>: its integration step is
  at most \<open>\<bar>maxSpeed\<bar>\<close> long, which for \<open>\<bar>maxSpeed\<bar> < 10\<close> (the simulation creates its agents
  with \<open>maxSpeed = 2\<close>) keeps it within the exit threshold of 10, so \<open>isAtExit\<close> fires and
  the agent is spliced out. This holds for every environment, the default one included;
  the grid is rectangular and the agent list has no repetitions, as the constructor
  leaves them.
\<close>

theorem exit_center_agent_removed:
  assumes "rectangular (grid s)" and "distinct (agents s)" and "a \<in> set (agents s)"
    and "position (objects s a) = exitCenter (env s)"
    and "\<bar>maxSpeed (objects s a)\<bar> < 10"
  shows "\<exists>s'. Simulation_update now s = Inr s' \<and> a \<notin> set (agents s')"
proof -
  from Simulation_update_Inr [OF assms(1), of now] obtain g' s2 totalSpeed jam s' where
    sw: "sweep (length (agents s)) (s\<lparr>frame := frame s + 1, grid := g'\<rparr>, 0, 0)
       = Inr (s2, totalSpeed, jam)"
    and run: "Simulation_update now s = Inr s'" and ag: "agents s' = agents s2"
    by blast
  let ?s1 = "s\<lparr>frame := frame s + 1, grid := g'\<rparr>"
  from assms(3) obtain k where k: "k < length (agents s)" "agents s ! k = a"
    by (auto simp: in_set_conv_nth)
  have "a \<notin> set (agents s2)"
    using sweep_removes [OF sw k(1), of a] k(2) assms(2,4,5) by simp
  then show ?thesis using run ag by simp
qed

theorem exit_center_agent_removed_witness:
  "rectangular (grid (Simulation_new 800 600 0 [Agent_new 775 300 2 50 20])) \<and>
   distinct (agents (Simulation_new 800 600 0 [Agent_new 775 300 2 50 20])) \<and>
   0 \<in> set (agents (Simulation_new 800 600 0 [Agent_new 775 300 2 50 20])) \<and>
   position (objects (Simulation_new 800 600 0 [Agent_new 775 300 2 50 20]) 0)
     = exitCenter (env (Simulation_new 800 600 0 [Agent_new 775 300 2 50 20])) \<and>
   \<bar>maxSpeed (objects (Simulation_new 800 600 0 [Agent_new 775 300 2 50 20]) 0)\<bar> < 10 \<and>
   (\<exists>s'. Simulation_update 1000 (Simulation_new 800 600 0 [Agent_new 775 300 2 50 20]) = Inr s' \<and>
      0 \<notin> set (agents s'))"
proof -
  let ?s = "Simulation_new 800 600 0 [Agent_new 775 300 2 50 20]"
  have h1: "rectangular (grid ?s)" by (simp add: Simulation_new_def setupGrid_rectangular)
  have h2: "distinct (agents ?s)" by (simp add: Simulation_new_def)
  have h3: "0 \<in> set (agents ?s)" by (simp add: Simulation_new_def)
  have h4: "position (objects ?s 0) = exitCenter (env ?s)"
    by (simp add: Simulation_new_def Agent_new_def exitCenter_def Environment_new_def
        setupEnvironment_def Vector_new_def)
  have h5: "\<bar>maxSpeed (objects ?s 0)\<bar> < 10" by (simp add: Simulation_new_def Agent_new_def)
  show ?thesis
    using h1 h2 h3 h4 h5 exit_center_agent_removed [OF h1 h2 h3 h4 h5, of 1000] by blast
qed

section \<open>Determinism of the frame update\<close>

lemma same_world_kinematics: "same_world s t \<Longrightarrow> kinematics s = kinematics t"
  by (simp add: same_world_def kinematics_def)

lemma rel_sum_eq_cases:
  assumes "rel_sum (=) R x y"
  obtains (Left) e where "x = Inl e" "y = Inl e"
  | (Right) a b where "x = Inr a" "y = Inr b" "R a b"
  using assms by (cases x; cases y) auto

lemma updateGrid_same:
  assumes "same_world s t"
  shows "rel_sum (=) same_world (updateGrid s) (updateGrid t)"
proof -
  have e: "env t = env s" "agents t = agents s" "objects t = objects s"
    "params t = params s" "grid t = grid s"
    using assms by (simp_all add: same_world_def)
  show ?thesis
    unfolding updateGrid_def e
    by (cases "placeAgents (objects s) (agents s) (map (map (\<lambda>bucket. [])) (grid s))")
      (simp_all add: same_world_def e)
qed

lemma agentStep_same:
  assumes "same_world s t"
  shows "rel_sum (=) (\<lambda>(s', r) (t', r'). same_world s' t' \<and> r = r')
           (agentStep s i acc) (agentStep t i acc)"
proof -
  have e: "env t = env s" "agents t = agents s" "objects t = objects s"
    "params t = params s" "grid t = grid s"
    using assms by (simp_all add: same_world_def)
  show ?thesis
    unfolding agentStep_def e Let_def
    by (cases "getNeighbors (grid s) (objects s) (agents s ! i)")
      (simp_all add: same_world_def e)
qed

lemma sweep_same:
  "same_world s t \<Longrightarrow>
   rel_sum (=) (\<lambda>(s', r) (t', r'). same_world s' t' \<and> r = r')
     (sweep i (s, acc)) (sweep i (t, acc))"
proof (induction i arbitrary: s t acc)
  case 0
  then show ?case by simp
next
  case (Suc i)
  from agentStep_same [OF Suc.prems, of i acc] show ?case
  proof (cases rule: rel_sum_eq_cases)
    case (Left e)
    then show ?thesis by simp
  next
    case (Right p q)
    obtain s1 acc1 where p: "p = (s1, acc1)" by (cases p)
    obtain t1 acc2 where q: "q = (t1, acc2)" by (cases q)
    have "same_world s1 t1" "acc2 = acc1" using Right(3) p q by simp_all
    then show ?thesis using Suc.IH [of s1 t1 acc1] Right(1,2) p q by simp
  qed
qed

lemma calculateMaxDensity_same:
  "same_world s t \<Longrightarrow> calculateMaxDensity s = calculateMaxDensity t"
  by (simp add: same_world_def calculateMaxDensity_def)

lemma Simulation_update_same:
  assumes "same_world s t"
  shows "rel_sum (=) same_world (Simulation_update now1 s) (Simulation_update now2 t)"
proof -
  have "same_world (s\<lparr>frame := frame s + 1\<rparr>) (t\<lparr>frame := frame t + 1\<rparr>)"
    using assms by (simp add: same_world_def)
  from updateGrid_same [OF this] show ?thesis
  proof (cases rule: rel_sum_eq_cases)
    case (Left e)
    then show ?thesis by (simp add: Simulation_update_def)
  next
    case (Right s1 t1)
    have len: "length (agents t1) = length (agents s1)" using Right(3) by (simp add: same_world_def)
    from sweep_same [OF Right(3), of "length (agents s1)" "(0, 0)"] show ?thesis
    proof (cases rule: rel_sum_eq_cases)
      case (Left e)
      then show ?thesis using Right(1,2) len by (simp add: Simulation_update_def)
    next
      case sw: (Right p q)
      obtain s2 ts jam where p: "p = (s2, ts, jam)" by (cases p)
      obtain t2 ts' jam' where q: "q = (t2, ts', jam')" by (cases q)
      have w2: "same_world s2 t2" and acc: "ts' = ts" "jam' = jam" using sw(3) p q by simp_all
      have d: "calculateMaxDensity t2 = calculateMaxDensity s2"
        using calculateMaxDensity_same [OF w2] by simp
      have e: "agents t2 = agents s2" using w2 by (simp add: same_world_def)
      show ?thesis
        using Right(1,2) sw(1,2) len p q acc d w2
        by (cases "calculateMaxDensity s2")
          (simp_all add: Simulation_update_def Let_def same_world_def)
    qed
  qed
qed

lemma Simulation_update_rectangular:
  assumes "rectangular (grid s)"
  shows "\<exists>s'. Simulation_update now s = Inr s' \<and> rectangular (grid s')"
proof -
  from Simulation_update_Inr [OF assms, of now] obtain g' s2 totalSpeed jam s' where
    shape: "map length g' = map length (grid s)"
    and sw: "sweep (length (agents s)) (s\<lparr>frame := frame s + 1, grid := g'\<rparr>, 0, 0)
       = Inr (s2, totalSpeed, jam)"
    and run: "Simulation_update now s = Inr s'" and gr: "grid s' = grid s2"
    by blast
  have "grid s2 = g'" using sweep_fields [OF sw] by simp
  then have "rectangular (grid s')" using rectangular_shape [OF assms shape] gr by simp
  then show ?thesis using run by blast
qed

lemma run_same:
  assumes "length clock1 = length clock2"
  shows "rectangular (grid s) \<Longrightarrow> same_world s t \<Longrightarrow>
    \<exists>tr1 tr2. run clock1 s = Inr tr1 \<and> run clock2 t = Inr tr2 \<and>
       length tr1 = length clock1 \<and> list_all2 same_world tr1 tr2"
  using assms
proof (induction clock1 clock2 arbitrary: s t rule: list_induct2)
  case Nil
  then show ?case by simp
next
  case (Cons now1 c1 now2 c2)
  from Simulation_update_rectangular [OF Cons.prems(1), of now1] obtain s' where
    s': "Simulation_update now1 s = Inr s'" and r': "rectangular (grid s')" by blast
  from Simulation_update_same [OF Cons.prems(2), of now1 now2] s' obtain t' where
    t': "Simulation_update now2 t = Inr t'" and w': "same_world s' t'"
    by (cases rule: rel_sum_eq_cases) auto
  from Cons.IH [OF r' w'] obtain tr1 tr2 where
    "run c1 s' = Inr tr1" "run c2 t' = Inr tr2" "length tr1 = length c1"
    "list_all2 same_world tr1 tr2" by blast
  then show ?case using s' t' w' by simp
qed

text \<open>
  C8: \<open>Simulation.update\<close> is deterministic. Two runs of \<open>N\<close> updates from states with
  the same agent list, agent states, environment, parameters and grid both complete and
  show the same positions and velocities for every agent at every frame, whatever the
  wall clock returns during the runs and whatever their start times and statistics are.
\<close>

theorem update_deterministic:
  assumes "rectangular (grid s)" and "same_world s t" and "length clock1 = length clock2"
  shows "\<exists>tr1 tr2. run clock1 s = Inr tr1 \<and> run clock2 t = Inr tr2 \<and>
       length tr1 = length clock1 \<and> map kinematics tr1 = map kinematics tr2"
proof -
  from run_same [OF assms(3,1,2)] obtain tr1 tr2 where
    r: "run clock1 s = Inr tr1" "run clock2 t = Inr tr2" "length tr1 = length clock1"
    and w: "list_all2 same_world tr1 tr2" by blast
  have "map kinematics tr1 = map kinematics tr2"
    using w by (induction rule: list_all2_induct) (simp_all add: same_world_kinematics)
  then show ?thesis using r by blast
qed

theorem update_deterministic_witness:
  "rectangular (grid (Simulation_new 800 600 0 [Agent_new 400 360 2 50 20])) \<and>
   same_world (Simulation_new 800 600 0 [Agent_new 400 360 2 50 20])
     (Simulation_new 800 600 5000 [Agent_new 400 360 2 50 20]) \<and>
   length [1000, 1016 :: real] = length [7000, 9000 :: real] \<and>
   (\<exists>tr1 tr2.
      run [1000, 1016] (Simulation_new 800 600 0 [Agent_new 400 360 2 50 20]) = Inr tr1 \<and>
      run [7000, 9000] (Simulation_new 800 600 5000 [Agent_new 400 360 2 50 20]) = Inr tr2 \<and>
      length tr1 = length [1000, 1016 :: real] \<and> map kinematics tr1 = map kinematics tr2)"
proof -
  let ?s = "Simulation_new 800 600 0 [Agent_new 400 360 2 50 20]"
  let ?t = "Simulation_new 800 600 5000 [Agent_new 400 360 2 50 20]"
  have h1: "rectangular (grid ?s)" by (simp add: Simulation_new_def setupGrid_rectangular)
  have h2: "same_world ?s ?t" by (simp add: same_world_def Simulation_new_def)
  have h3: "length [1000, 1016 :: real] = length [7000, 9000 :: real]" by simp
  show ?thesis
    by (intro conjI h1 h2 h3 update_deterministic [OF h1 h2 h3])
qed

section \<open>The average speed statistic\<close>

lemma Vector_mag_axis: "Vector_mag \<lparr>vx = a, vy = 0\<rparr> = \<bar>a\<bar>"
  by (simp add: Vector_mag_def)

lemma Vector_dist_less_iff:
  assumes "0 \<le> r"
  shows "Vector_dist p q < r \<longleftrightarrow>
         (vx p - vx q) * (vx p - vx q) + (vy p - vy q) * (vy p - vy q) < r * r"
proof -
  have "sqrt (r * r) = r" using assms by simp
  then show ?thesis
    unfolding Vector_dist_def Let_def by (metis real_sqrt_less_iff)
qed

lemma Vector_dist_pos_iff:
  "0 < Vector_dist p q \<longleftrightarrow>
   0 < (vx p - vx q) * (vx p - vx q) + (vy p - vy q) * (vy p - vy q)"
  by (simp add: Vector_dist_def Let_def)

lemma lane_grid: "grid lane = [[[], []], [[], []], [[], []], [[], []]]"
  by (simp add: lane_def Simulation_new_def setupGrid_def gridSize_def eval_nat_numeral)

lemma lane_agents: "agents lane = [0, 1]"
  by (simp add: lane_def Simulation_new_def upt_rec)

lemma lane_objects:
  "objects lane 0 = Agent_new 170 50 2 50 20" "objects lane 1 = Agent_new 60 50 2 50 20"
  "objects lane (Suc 0) = Agent_new 60 50 2 50 20"
  by (simp_all add: lane_def Simulation_new_def)

lemma lane_updateGrid:
  "updateGrid (lane\<lparr>frame := frame lane + 1\<rparr>)
   = Inr (lane\<lparr>frame := frame lane + 1, grid := [[[], []], [[], [1]], [[], []], [[], [0]]]\<rparr>)"
  by (simp add: updateGrid_def lane_grid lane_agents lane_objects Agent_new_def Vector_new_def
      gridSize_def inGrid_def bucketPush_def Let_def eval_nat_numeral)


lemmas vec_eval = Vector_new_def Vector_add_def Vector_sub_def Vector_mult_def Vector_div_def
  Vector_normalize_def Vector_limit_def Vector_mag_axis

lemma lane_env:
  "env lane = \<lparr>width = 200, height = 100,
      walls = [\<lparr>rx = 0, ry = 0, rw = 200, rh = 20\<rparr>, \<lparr>rx = 0, ry = 80, rw = 200, rh = 20\<rparr>,
               \<lparr>rx = 0, ry = 0, rw = 20, rh = 100\<rparr>, \<lparr>rx = 300, ry = 100, rw = 20, rh = 200\<rparr>,
               \<lparr>rx = 300, ry = 400, rw = 20, rh = 200\<rparr>],
      exit = \<lparr>rx = 150, ry = 25, rw = 50, rh = 50\<rparr>,
      restrictedZones = [\<lparr>rx = 100, ry = 100, rw = 100, rh = 100\<rparr>]\<rparr>"
  by (simp add: lane_def Simulation_new_def Environment_new_def setupEnvironment_def)

lemma lane_params:
  "params lane = \<lparr>numAgents = 50, separationWeight = 1.5, alignmentWeight = 1.0,
                cohesionWeight = 1.0, goalWeight = 1.2, params_perceptionRadius = 50\<rparr>"
  by (simp add: lane_def Simulation_new_def)

lemma upto_ring: "[- 1..1::int] = [- 1, 0, 1]"
  by (simp add: upto_rec1)

lemma neighbors_B:
  "getNeighbors [[[], []], [[], [1]], [[], []], [[], [0]]] h 1 = Inr []"
  if "h 1 = Agent_new 60 50 2 50 20 \<or> h 1 = stayer_after"
  using that
  by (auto simp: getNeighbors_def scanCell_def inGrid_def Let_def gridSize_def Agent_new_def
      Vector_new_def stayer_after_def upto_ring)

lemma neighbors_A:
  "getNeighbors [[[], []], [[], [1]], [[], []], [[], [0]]] h 0 = Inr []"
  if "h 0 = Agent_new 170 50 2 50 20"
  using that
  by (simp add: getNeighbors_def scanCell_def inGrid_def Let_def gridSize_def Agent_new_def
      Vector_new_def upto_ring)

lemma steer_B:
  "Agent_update (env lane) (applyForce (Agent_new 60 50 2 50 20)
     (Vector_add (Vector_add (Vector_add (Vector_add (Vector_add (Vector_new 0 0)
        (Vector_mult (separation (Agent_new 60 50 2 50 20) []) 1.5))
        (Vector_mult (alignment (Agent_new 60 50 2 50 20) []) 1.0))
        (Vector_mult (cohesion (Agent_new 60 50 2 50 20) []) 1.0))
        (Vector_mult (seekGoal (Agent_new 60 50 2 50 20) (exitCenter (env lane))) 1.2))
        (Vector_mult (wallAvoidance (Agent_new 60 50 2 50 20) (env lane)) 1.5))) = stayer_after"
  by (simp add: lane_env Agent_new_def separation_def alignment_def cohesion_def seekGoal_def
      wallAvoidance_def steer_finish_def exitCenter_def applyForce_def Agent_update_def
      isPositionValid_def agentRect_def rectIntersect_def Let_def vec_eval
      Vector_dist_less_iff Vector_dist_pos_iff stayer_after_def)


lemma steer_A:
  "Agent_update (env lane) (applyForce (Agent_new 170 50 2 50 20)
     (Vector_add (Vector_add (Vector_add (Vector_add (Vector_add (Vector_new 0 0)
        (Vector_mult (separation (Agent_new 170 50 2 50 20) []) 1.5))
        (Vector_mult (alignment (Agent_new 170 50 2 50 20) []) 1.0))
        (Vector_mult (cohesion (Agent_new 170 50 2 50 20) []) 1.0))
        (Vector_mult (seekGoal (Agent_new 170 50 2 50 20) (exitCenter (env lane))) 1.2))
        (Vector_mult (wallAvoidance (Agent_new 170 50 2 50 20) (env lane)) 1.5))) = leaver_after"
  by (simp add: lane_env Agent_new_def separation_def alignment_def cohesion_def seekGoal_def
      wallAvoidance_def steer_finish_def exitCenter_def applyForce_def Agent_update_def
      isPositionValid_def agentRect_def rectIntersect_def Let_def vec_eval
      Vector_dist_less_iff Vector_dist_pos_iff leaver_after_def)

lemma lane_indexed_fields:
  "agents lane_indexed = [0, 1]" "objects lane_indexed = objects lane" "env lane_indexed = env lane"
  "params lane_indexed = params lane" "grid lane_indexed = [[[], []], [[], [1]], [[], []], [[], [0]]]"
  by (simp_all add: lane_indexed_def lane_agents)

lemma step_B:
  "agentStep lane_indexed 1 (0, 0) = Inr (lane_indexed\<lparr>objects := (objects lane)(1 := stayer_after)\<rparr>, 2, 0)"
proof -
  have n: "getNeighbors (grid lane_indexed) (objects lane_indexed) 1 = Inr []"
    using neighbors_B [of "objects lane"] by (simp add: lane_indexed_fields lane_objects)
  have exit: "\<not> isAtExit (env lane) (position stayer_after) 10"
    by (simp add: isAtExit_def exitCenter_def lane_env stayer_after_def Vector_new_def Vector_dist_less_iff)
  have speed: "Vector_mag (velocity stayer_after) = 2" by (simp add: stayer_after_def Vector_mag_axis)
  show ?thesis
    using n steer_B exit speed
    by (simp add: agentStep_def Let_def lane_indexed_fields lane_objects lane_params)
qed


lemma lane_first_fields:
  "agents lane_first = [0, 1]" "objects lane_first 0 = Agent_new 170 50 2 50 20" "env lane_first = env lane"
  "params lane_first = params lane" "grid lane_first = [[[], []], [[], [1]], [[], []], [[], [0]]]"
  by (simp_all add: lane_first_def lane_indexed_fields lane_objects)

lemma step_A:
  "agentStep lane_first 0 (2, 0) = Inr (lane_swept, 4, 0)"
proof -
  have n: "getNeighbors (grid lane_first) (objects lane_first) 0 = Inr []"
    using neighbors_A [of "objects lane_first"] by (simp add: lane_first_fields)
  have exit: "isAtExit (env lane) (position leaver_after) 10"
    by (simp add: isAtExit_def exitCenter_def lane_env leaver_after_def Vector_new_def Vector_dist_less_iff)
  have speed: "Vector_mag (velocity leaver_after) = 2" by (simp add: leaver_after_def Vector_mag_axis)
  show ?thesis
    using n steer_A exit speed
    by (simp add: agentStep_def Let_def lane_first_fields lane_params lane_swept_def)
qed

lemma lane_sweep: "sweep (length (agents lane_indexed)) (lane_indexed, 0, 0) = Inr (lane_swept, 4, 0)"
proof -
  have "sweep (Suc (Suc 0)) (lane_indexed, 0, 0) = Inr (lane_swept, 4, 0)"
    using step_B step_A by (simp add: lane_first_def)
  then show ?thesis by (simp add: lane_indexed_fields)
qed

lemma lane_swept_fields:
  "agents lane_swept = [1]" "objects lane_swept 1 = stayer_after" "objects lane_swept (Suc 0) = stayer_after"
  "grid lane_swept = [[[], []], [[], [1]], [[], []], [[], [0]]]"
  by (simp_all add: lane_swept_def lane_first_def lane_indexed_fields)

lemma lane_density: "calculateMaxDensity lane_swept = Inr (Some 0)"
proof -
  have "objects lane_swept 1 = Agent_new 60 50 2 50 20 \<or> objects lane_swept 1 = stayer_after"
    by (simp add: lane_swept_fields)
  from neighbors_B [of "objects lane_swept", OF this] have n: "getNeighbors (grid lane_swept) (objects lane_swept) 1 = Inr []"
    by (simp add: lane_swept_fields)
  show ?thesis
    using n by (simp add: calculateMaxDensity_def lane_swept_fields js_div_def js_max_def stayer_after_def)
qed

lemma Simulation_update_result:
  assumes "updateGrid (s\<lparr>frame := frame s + 1\<rparr>) = Inr s1"
    and "sweep (length (agents s1)) (s1, 0, 0) = Inr (s2, totalSpeed, jam)"
    and "calculateMaxDensity s2 = Inr d"
  shows "\<exists>s'. Simulation_update now s = Inr s' \<and> agents s' = agents s2 \<and>
     objects s' = objects s2 \<and>
     averageSpeed s' = Some (if length (agents s2) > 0
                             then totalSpeed / real (length (agents s2)) else 0)"
proof -
  define s' where "s' =
     (let s3 = s2\<lparr>maxDensity := js_max (maxDensity s2) d,
                  jamCount := jamCount s2 + (if jam > 0 then 1 else 0)\<rparr>;
          s4 = (if length (agents s3) = 0
                then s3\<lparr>console := console s3 @
                       [\<lparr>report_frames = frame s3,
                         report_seconds = (now - startTime s3) / 1000,
                         report_maxDensity = maxDensity s3,
                         report_jamCount = jamCount s3\<rparr>]\<rparr>
                else s3)
      in s4\<lparr>averageSpeed :=
           Some (if length (agents s4) > 0
                 then totalSpeed / real (length (agents s4)) else 0)\<rparr>)"
  have run: "Simulation_update now s = Inr s'"
    by (simp only: Simulation_update_def assms sum.case prod.case s'_def Let_def)
  have f: "agents s' = agents s2" "objects s' = objects s2"
      "averageSpeed s' = Some (if length (agents s2) > 0
                             then totalSpeed / real (length (agents s2)) else 0)"
    by (simp_all add: s'_def Let_def)
  show ?thesis by (intro exI [of _ s'] conjI run f)
qed

text \<open>
  C7 fails on the code (a defect of the code): \<open>totalSpeed\<close> is accumulated for every
  agent processed in the frame, also for an agent that has just been spliced out, and is
  then divided by the number of agents that remain. In the scenario one agent leaves at
  speed 2 and one stays at speed 2: after the update the mean speed of the remaining
  agents is 2, and \<open>averageSpeed\<close> is 4, twice \<open>maxSpeed\<close>.
\<close>

theorem averageSpeed_counts_removed_agent:
  "\<exists>s'. Simulation_update now lane = Inr s' \<and> agents s' = [1] \<and>
      meanSpeed s' = 2 \<and> averageSpeed s' = Some 4"
proof -
  have ug: "updateGrid (lane\<lparr>frame := frame lane + 1\<rparr>) = Inr lane_indexed"
    using lane_updateGrid by (simp add: lane_indexed_def)
  have speed: "Vector_mag (velocity stayer_after) = 2"
    by (simp add: stayer_after_def Vector_mag_axis)
  from Simulation_update_result [OF ug lane_sweep lane_density, of now] obtain s' where
    "Simulation_update now lane = Inr s'" "agents s' = agents lane_swept"
    "objects s' = objects lane_swept"
    "averageSpeed s' = Some (if length (agents lane_swept) > 0
                             then 4 / real (length (agents lane_swept)) else 0)"
    by blast
  then show ?thesis using speed by (simp add: lane_swept_fields meanSpeed_def)
qed

section \<open>Rounding to binary64\<close>

lemma rne_near: "\<bar>of_int (rne y) - y\<bar> \<le> 1 / 2"
proof -
  have "of_int \<lfloor>y\<rfloor> \<le> y" "y < of_int \<lfloor>y\<rfloor> + 1" by linarith+
  then show ?thesis by (auto simp: rne_def Let_def)
qed

lemma rne_eqI:
  assumes "\<bar>y - of_int k\<bar> < 1 / 2"
  shows "rne y = k"
proof -
  have "\<lfloor>y\<rfloor> = k \<or> \<lfloor>y\<rfloor> = k - 1" using assms by linarith
  then show ?thesis
  proof
    assume f: "\<lfloor>y\<rfloor> = k"
    then have "y - of_int k < 1 / 2" using assms by linarith
    then show ?thesis using f by (simp add: rne_def Let_def)
  next
    assume f: "\<lfloor>y\<rfloor> = k - 1"
    have "y - (of_int k - 1) > 1 / 2" using assms by linarith
    then have "y - of_int (k - 1) > 1 / 2" by simp
    then show ?thesis using f by (simp add: rne_def Let_def)
  qed
qed

lemma rne_tie:
  assumes "y = of_int f + 1 / 2"
  shows "rne y = (if even f then f else f + 1)"
proof -
  have "\<lfloor>y\<rfloor> = f" using assms by linarith
  then show ?thesis using assms by (simp add: rne_def Let_def)
qed

lemma binade:
  assumes "x \<noteq> 0"
  shows "2 powr of_int \<lfloor>log 2 \<bar>x\<bar>\<rfloor> \<le> \<bar>x\<bar>"
    and "\<bar>x\<bar> < 2 powr of_int (\<lfloor>log 2 \<bar>x\<bar>\<rfloor> + 1)"
proof -
  have "0 < \<bar>x\<bar>" using assms by simp
  from floor_log_eq_powr_iff [OF this, of 2 "\<lfloor>log 2 \<bar>x\<bar>\<rfloor>"]
  show "2 powr of_int \<lfloor>log 2 \<bar>x\<bar>\<rfloor> \<le> \<bar>x\<bar>"
    and "\<bar>x\<bar> < 2 powr of_int (\<lfloor>log 2 \<bar>x\<bar>\<rfloor> + 1)" by simp_all
qed

lemma fl_rel: "\<bar>fl x - x\<bar> \<le> \<bar>x\<bar> / 2 ^ 53"
proof (cases "x = 0")
  case True
  then show ?thesis by (simp add: fl_def)
next
  case False
  define p where "p = \<lfloor>log 2 \<bar>x\<bar>\<rfloor>"
  define s :: real where "s = 2 powr of_int (p - 52)"
  have s: "0 < s" by (simp add: s_def)
  have "(2::real) powr of_int p = s * 2 ^ 52"
  proof -
    have "(2::real) powr of_int p = 2 powr (of_int (p - 52) + 52)" by simp
    also have "\<dots> = 2 powr of_int (p - 52) * 2 powr 52" by (rule powr_add)
    finally show ?thesis by (simp add: s_def)
  qed
  then have lo: "s * 2 ^ 52 \<le> \<bar>x\<bar>" using binade(1) [OF False] by (simp add: p_def)
  have flx: "fl x = of_int (rne (x / s)) * s"
    using False by (simp add: fl_def Let_def p_def s_def)
  have "\<bar>fl x - x\<bar> = \<bar>of_int (rne (x / s)) - x / s\<bar> * s"
  proof -
    have "fl x - x = (of_int (rne (x / s)) - x / s) * s"
      using s by (simp add: flx field_simps)
    then show ?thesis using s by (simp add: abs_mult)
  qed
  also have "\<dots> \<le> 1 / 2 * s" using rne_near [of "x / s"] s by (simp add: mult_right_mono)
  also have "\<dots> = (s * 2 ^ 52) / 2 ^ 53" by simp
  also have "\<dots> \<le> \<bar>x\<bar> / 2 ^ 53" using lo by (simp add: divide_right_mono)
  finally show ?thesis .
qed

lemma fl_zero_iff: "fl x = 0 \<longleftrightarrow> x = 0"
proof
  assume "fl x = 0"
  then have "\<bar>x\<bar> \<le> \<bar>x\<bar> / 2 ^ 53" using fl_rel [of x] by simp
  then show "x = 0" by simp
next
  assume "x = 0"
  then show "fl x = 0" by (simp add: fl_def)
qed

lemma fl_zero: "fl 0 = 0"
  by (simp add: fl_def)

lemma fl_bounds: "x - \<bar>x\<bar> / 2 ^ 53 \<le> fl x" "fl x \<le> x + \<bar>x\<bar> / 2 ^ 53"
  using fl_rel [of x] by linarith+

lemma fl_nonneg: "0 \<le> x \<Longrightarrow> 0 \<le> fl x"
  using fl_bounds(1) [of x] by simp

lemma fl_upper: "0 \<le> x \<Longrightarrow> fl x \<le> x * rnd_up"
  using fl_bounds(2) [of x] by (simp add: algebra_simps rnd_up_def)

lemma fl_lower: "0 \<le> x \<Longrightarrow> x * rnd_dn \<le> fl x"
  using fl_bounds(1) [of x] by (simp add: algebra_simps rnd_dn_def)

lemma fl_abs_upper: "\<bar>fl x\<bar> \<le> \<bar>x\<bar> * rnd_up"
  using fl_bounds [of x] by (simp add: algebra_simps rnd_up_def)

lemma fl_abs_lower: "\<bar>x\<bar> * rnd_dn \<le> \<bar>fl x\<bar>"
  using fl_bounds [of x] by (simp add: algebra_simps rnd_dn_def)

lemma rnd_pos: "0 < rnd_dn" "rnd_dn < 1" "1 < rnd_up" "0 < rnd_up" "0 \<le> rnd_up" "0 \<le> rnd_dn"
  by (simp_all add: rnd_up_def rnd_dn_def)

lemma fl_evalI:
  assumes "2 powr of_int p \<le> \<bar>x\<bar>" and "\<bar>x\<bar> < 2 powr of_int (p + 1)"
    and "\<bar>x / 2 powr of_int (p - 52) - of_int k\<bar> < 1 / 2"
  shows "fl x = of_int k * 2 powr of_int (p - 52)"
proof -
  have nz: "x \<noteq> 0" using assms(1) by (auto simp: not_le [symmetric])
  then have "0 < \<bar>x\<bar>" by simp
  from floor_log_eq_powr_iff [OF this, of 2 p] assms(1,2)
  have "\<lfloor>log 2 \<bar>x\<bar>\<rfloor> = p" by simp
  then show ?thesis using nz rne_eqI [OF assms(3)] by (simp add: fl_def Let_def)
qed

lemma fl_evalN:
  fixes n :: nat
  assumes "2 ^ 52 \<le> \<bar>x\<bar> * 2 ^ n" and "\<bar>x\<bar> * 2 ^ n < 2 ^ 53"
    and "\<bar>x * 2 ^ n - of_int k\<bar> < 1 / 2"
  shows "fl x = of_int k / 2 ^ n"
proof -
  have s: "(2::real) powr of_int (52 - int n - 52) = 1 / 2 ^ n"
    by (simp add: powr_minus_divide powr_realpow)
  have hi: "(2::real) powr of_int (52 - int n) = 2 ^ 52 / 2 ^ n"
  proof -
    have "(2::real) powr of_int (52 - int n) = 2 powr (52 + (- real n))" by simp
    also have "\<dots> = 2 powr 52 * 2 powr (- real n)" by (rule powr_add)
    finally show ?thesis by (simp add: powr_minus_divide powr_realpow)
  qed
  have hi2: "(2::real) powr of_int (52 - int n + 1) = 2 ^ 53 / 2 ^ n"
  proof -
    have "(2::real) powr of_int (52 - int n + 1) = 2 powr (53 + (- real n))" by simp
    also have "\<dots> = 2 powr 53 * 2 powr (- real n)" by (rule powr_add)
    finally show ?thesis by (simp add: powr_minus_divide powr_realpow)
  qed
  have a: "2 powr of_int (52 - int n) \<le> \<bar>x\<bar>"
    unfolding hi using assms(1) by (simp add: pos_divide_le_eq)
  have b: "\<bar>x\<bar> < 2 powr of_int (52 - int n + 1)"
    unfolding hi2 using assms(2) by (simp add: pos_less_divide_eq)
  have c: "\<bar>x / 2 powr of_int (52 - int n - 52) - of_int k\<bar> < 1 / 2"
    unfolding s using assms(3) by simp
  from fl_evalI [OF a b c] show ?thesis unfolding s by simp
qed

lemma fl_tieN:
  fixes n :: nat
  assumes "2 ^ 52 \<le> \<bar>x\<bar> * 2 ^ n" and "\<bar>x\<bar> * 2 ^ n < 2 ^ 53"
    and "x * 2 ^ n = of_int f + 1 / 2"
  shows "fl x = of_int (if even f then f else f + 1) / 2 ^ n"
proof -
  have s: "(2::real) powr of_int (52 - int n - 52) = 1 / 2 ^ n"
    by (simp add: powr_minus_divide powr_realpow)
  have hi: "(2::real) powr of_int (52 - int n) = 2 ^ 52 / 2 ^ n"
  proof -
    have "(2::real) powr of_int (52 - int n) = 2 powr (52 + (- real n))" by simp
    also have "\<dots> = 2 powr 52 * 2 powr (- real n)" by (rule powr_add)
    finally show ?thesis by (simp add: powr_minus_divide powr_realpow)
  qed
  have hi2: "(2::real) powr of_int (52 - int n + 1) = 2 ^ 53 / 2 ^ n"
  proof -
    have "(2::real) powr of_int (52 - int n + 1) = 2 powr (53 + (- real n))" by simp
    also have "\<dots> = 2 powr 53 * 2 powr (- real n)" by (rule powr_add)
    finally show ?thesis by (simp add: powr_minus_divide powr_realpow)
  qed
  have a: "2 powr of_int (52 - int n) \<le> \<bar>x\<bar>"
    unfolding hi using assms(1) by (simp add: pos_divide_le_eq)
  have b: "\<bar>x\<bar> < 2 powr of_int (52 - int n + 1)"
    unfolding hi2 using assms(2) by (simp add: pos_less_divide_eq)
  have nz: "x \<noteq> 0" using assms(1) by auto
  then have "0 < \<bar>x\<bar>" by simp
  from floor_log_eq_powr_iff [OF this, of 2 "52 - int n"] a b
  have p: "\<lfloor>log 2 \<bar>x\<bar>\<rfloor> = 52 - int n" by simp
  have y: "x / 2 powr of_int (52 - int n - 52) = of_int f + 1 / 2"
    unfolding s using assms(3) by simp
  have "fl x = of_int (rne (x / 2 powr of_int (52 - int n - 52))) * 2 powr of_int (52 - int n - 52)"
    using nz unfolding fl_def Let_def p by simp
  then have "fl x = of_int (if even f then f else f + 1) * 2 powr of_int (52 - int n - 52)"
    by (simp only: rne_tie [OF y])
  then show ?thesis unfolding s by simp
qed

lemma fl_of_int:
  assumes "\<bar>k\<bar> < 2 ^ 53"
  shows "fl (of_int k) = of_int k"
proof (cases "k = 0")
  case True
  then show ?thesis by (simp add: fl_zero)
next
  case False
  define x :: real where "x = of_int k"
  have x0: "x \<noteq> 0" using False by (simp add: x_def)
  define p where "p = \<lfloor>log 2 \<bar>x\<bar>\<rfloor>"
  have lo: "2 powr of_int p \<le> \<bar>x\<bar>" and hi: "\<bar>x\<bar> < 2 powr of_int (p + 1)"
    using binade [OF x0] by (simp_all add: p_def)
  have x1: "1 \<le> \<bar>x\<bar>" using False by (simp add: x_def)
  have xb: "\<bar>x\<bar> < 2 ^ 53"
  proof -
    have "real_of_int \<bar>k\<bar> < real_of_int (2 ^ 53)" using assms by (simp only: of_int_less_iff)
    then show ?thesis by (simp add: x_def)
  qed
  have p0: "0 \<le> p"
  proof (rule ccontr)
    assume "\<not> 0 \<le> p"
    then have "p + 1 \<le> 0" by simp
    then have "(2::real) powr of_int (p + 1) \<le> 2 powr 0"
      by (intro powr_mono) simp_all
    then show False using hi x1 by simp
  qed
  have p52: "p \<le> 52"
  proof (rule ccontr)
    assume "\<not> p \<le> 52"
    then have "53 \<le> p" by simp
    then have "(2::real) powr 53 \<le> 2 powr of_int p"
      by (intro powr_mono) simp_all
    then show False using lo xb by simp
  qed
  define n where "n = nat (52 - p)"
  have n: "int n = 52 - p" using p52 by (simp add: n_def)
  have e: "(2::real) powr of_int (p - 52) = 1 / 2 ^ n"
  proof -
    have "of_int (p - 52) = - real n" using n by simp
    then show ?thesis by (simp add: powr_minus_divide powr_realpow)
  qed
  have y: "x / 2 powr of_int (p - 52) = of_int (k * 2 ^ n)"
    unfolding e by (simp add: x_def)
  have "rne (x / 2 powr of_int (p - 52)) = k * 2 ^ n"
    unfolding y by (rule rne_eqI) simp
  then have "fl x = of_int (k * 2 ^ n) * 2 powr of_int (p - 52)"
    using x0 unfolding fl_def Let_def p_def by simp
  then show ?thesis unfolding e by (simp add: x_def)
qed

lemma fl_numeral: "numeral w < (2::int) ^ 53 \<Longrightarrow> fl (numeral w) = numeral w"
  using fl_of_int [of "numeral w"] by simp

lemma fl_one: "fl 1 = 1"
  using fl_of_int [of 1] by simp

lemmas fl_simps = fl_zero_iff fl_zero fl_one fl_numeral

lemma fl_sqrt_evalN:
  fixes n :: nat
  assumes "0 \<le> q" and "2 ^ 52 < k" and "k < 2 ^ 53"
    and "(of_int k - 1 / 2) * (of_int k - 1 / 2) < q * 4 ^ n"
    and "q * 4 ^ n < (of_int k + 1 / 2) * (of_int k + 1 / 2)"
  shows "fl (sqrt q) = of_int k / 2 ^ n"
proof -
  let ?y = "sqrt q * 2 ^ n"
  have kr: "(2::real) ^ 52 < of_int k" "real_of_int k < 2 ^ 53"
  proof -
    have "real_of_int (2 ^ 52) < of_int k" using assms(2) by (simp only: of_int_less_iff)
    then show "(2::real) ^ 52 < of_int k" by simp
    have "real_of_int k < of_int (2 ^ 53)" using assms(3) by (simp only: of_int_less_iff)
    then show "real_of_int k < 2 ^ 53" by simp
  qed
  have k1: "real_of_int k + 1 \<le> 2 ^ 53"
  proof -
    have "k + 1 \<le> 2 ^ 53" using assms(3) by simp
    then have "real_of_int (k + 1) \<le> of_int (2 ^ 53)" by (simp only: of_int_le_iff)
    then show ?thesis by simp
  qed
  have k2: "(2::real) ^ 52 + 1 \<le> of_int k"
  proof -
    have "2 ^ 52 + 1 \<le> k" using assms(2) by simp
    then have "real_of_int (2 ^ 52 + 1) \<le> of_int k" by (simp only: of_int_le_iff)
    then show ?thesis by simp
  qed
  have y2: "?y = sqrt (q * 4 ^ n)"
  proof -
    have "(4::real) ^ n = (2 ^ n) * (2 ^ n)" by (simp add: power_mult_distrib [symmetric])
    then show ?thesis by (simp add: real_sqrt_mult)
  qed
  have lo: "of_int k - 1 / 2 < ?y"
  proof -
    have "0 \<le> real_of_int k - 1 / 2" using kr by simp
    then have "real_of_int k - 1 / 2 = sqrt ((of_int k - 1 / 2) * (of_int k - 1 / 2))" by simp
    also have "\<dots> < sqrt (q * 4 ^ n)" using assms(4) by (rule real_sqrt_less_mono)
    finally show ?thesis by (simp add: y2)
  qed
  have hi: "?y < of_int k + 1 / 2"
  proof -
    have "0 \<le> real_of_int k + 1 / 2" using kr by simp
    then have e: "sqrt ((of_int k + 1 / 2) * (of_int k + 1 / 2)) = real_of_int k + 1 / 2" by simp
    have "sqrt (q * 4 ^ n) < sqrt ((of_int k + 1 / 2) * (of_int k + 1 / 2))"
      using assms(5) by (rule real_sqrt_less_mono)
    then show ?thesis by (simp only: y2 e)
  qed
  have y0: "0 \<le> sqrt q" using assms(1) by simp
  have ab: "\<bar>sqrt q\<bar> = sqrt q" using y0 by simp
  show ?thesis
  proof (rule fl_evalN)
    show "2 ^ 52 \<le> \<bar>sqrt q\<bar> * 2 ^ n" unfolding ab using lo k2 by linarith
    show "\<bar>sqrt q\<bar> * 2 ^ n < 2 ^ 53" unfolding ab using hi k1 by linarith
    show "\<bar>sqrt q * 2 ^ n - of_int k\<bar> < 1 / 2" using lo hi by linarith
  qed
qed

section \<open>Magnitudes under rounding\<close>

lemma Vector_mag_b64_upper: "Vector_mag_b64 v \<le> Vector_mag v * (rnd_up * rnd_up)"
proof -
  let ?x2 = "vx v * vx v" and ?y2 = "vy v * vy v"
  let ?r = "Vector_mag v"
  have r2: "?r * ?r = ?x2 + ?y2" by (simp add: Vector_mag_def)
  have r0: "0 \<le> ?r" by (rule Vector_mag_nonneg)
  have a: "fl ?x2 \<le> ?x2 * rnd_up" "fl ?y2 \<le> ?y2 * rnd_up" by (simp_all add: fl_upper)
  have a0: "0 \<le> fl ?x2" "0 \<le> fl ?y2" by (simp_all add: fl_nonneg)
  have "fl (fl ?x2 + fl ?y2) \<le> (fl ?x2 + fl ?y2) * rnd_up" using a0 by (simp add: fl_upper)
  also have "\<dots> \<le> ((?x2 + ?y2) * rnd_up) * rnd_up"
    using a by (intro mult_right_mono) (simp_all add: algebra_simps rnd_pos)
  also have "\<dots> = (?r * rnd_up) * (?r * rnd_up)" by (simp add: r2 [symmetric] algebra_simps)
  finally have q: "fl (fl ?x2 + fl ?y2) \<le> (?r * rnd_up) * (?r * rnd_up)" .
  have "sqrt (fl (fl ?x2 + fl ?y2)) \<le> sqrt ((?r * rnd_up) * (?r * rnd_up))"
    using q by (rule real_sqrt_le_mono)
  also have "\<dots> = ?r * rnd_up" using r0 rnd_pos by (simp add: abs_mult)
  finally have s: "sqrt (fl (fl ?x2 + fl ?y2)) \<le> ?r * rnd_up" .
  have "Vector_mag_b64 v \<le> sqrt (fl (fl ?x2 + fl ?y2)) * rnd_up"
    unfolding Vector_mag_b64_def by (rule fl_upper) (simp add: fl_nonneg a0)
  also have "\<dots> \<le> (?r * rnd_up) * rnd_up" using s by (intro mult_right_mono) (simp_all add: rnd_pos)
  finally show ?thesis by (simp add: algebra_simps)
qed

lemma Vector_mag_b64_lower: "Vector_mag v * (rnd_dn * rnd_dn) \<le> Vector_mag_b64 v"
proof -
  let ?x2 = "vx v * vx v" and ?y2 = "vy v * vy v"
  let ?r = "Vector_mag v"
  have r2: "?r * ?r = ?x2 + ?y2" by (simp add: Vector_mag_def)
  have r0: "0 \<le> ?r" by (rule Vector_mag_nonneg)
  have a: "?x2 * rnd_dn \<le> fl ?x2" "?y2 * rnd_dn \<le> fl ?y2" by (simp_all add: fl_lower)
  have a0: "0 \<le> fl ?x2" "0 \<le> fl ?y2" by (simp_all add: fl_nonneg)
  have "(?r * rnd_dn) * (?r * rnd_dn) = ((?x2 + ?y2) * rnd_dn) * rnd_dn" by (simp add: r2 [symmetric] algebra_simps)
  also have "\<dots> \<le> (fl ?x2 + fl ?y2) * rnd_dn"
    using a by (intro mult_right_mono) (simp_all add: algebra_simps rnd_pos)
  also have "\<dots> \<le> fl (fl ?x2 + fl ?y2)" using a0 by (simp add: fl_lower)
  finally have q: "(?r * rnd_dn) * (?r * rnd_dn) \<le> fl (fl ?x2 + fl ?y2)" .
  have "?r * rnd_dn = sqrt ((?r * rnd_dn) * (?r * rnd_dn))" using r0 rnd_pos by (simp add: abs_mult)
  also have "\<dots> \<le> sqrt (fl (fl ?x2 + fl ?y2))" using q by (rule real_sqrt_le_mono)
  finally have s: "?r * rnd_dn \<le> sqrt (fl (fl ?x2 + fl ?y2))" .
  have "(?r * rnd_dn) * rnd_dn \<le> sqrt (fl (fl ?x2 + fl ?y2)) * rnd_dn"
    using s by (intro mult_right_mono) (simp_all add: rnd_pos)
  also have "\<dots> \<le> Vector_mag_b64 v"
    unfolding Vector_mag_b64_def by (rule fl_lower) (simp add: fl_nonneg a0)
  finally show ?thesis by (simp add: algebra_simps)
qed

lemma Vector_mag_b64_zero_iff: "Vector_mag_b64 v = 0 \<longleftrightarrow> vx v = 0 \<and> vy v = 0"
proof -
  have n: "0 \<le> fl (vx v * vx v)" "0 \<le> fl (vy v * vy v)" by (simp_all add: fl_nonneg)
  have "fl (vx v * vx v) + fl (vy v * vy v) = 0 \<longleftrightarrow> fl (vx v * vx v) = 0 \<and> fl (vy v * vy v) = 0"
    using n by linarith
  then show ?thesis by (simp add: Vector_mag_b64_def fl_zero_iff)
qed

lemma Vector_eq_iff: "(u :: Vector) = v \<longleftrightarrow> vx u = vx v \<and> vy u = vy v"
  by (cases u, cases v) simp

lemma Vector_mag_scale:
  assumes "0 \<le> k" and "\<bar>vx w\<bar> \<le> k * \<bar>vx v\<bar>" and "\<bar>vy w\<bar> \<le> k * \<bar>vy v\<bar>"
  shows "Vector_mag w \<le> k * Vector_mag v"
proof -
  have sq: "a * a \<le> (k * b) * (k * b)" if "\<bar>a\<bar> \<le> k * \<bar>b\<bar>" for a b :: real
  proof -
    have "\<bar>a\<bar> * \<bar>a\<bar> \<le> (k * \<bar>b\<bar>) * (k * \<bar>b\<bar>)"
      using that by (intro mult_mono) (simp_all add: assms(1))
    then show ?thesis by (simp add: abs_mult_self_eq mult.assoc mult.left_commute)
  qed
  have "vx w * vx w + vy w * vy w \<le> (k * vx v) * (k * vx v) + (k * vy v) * (k * vy v)"
    using sq [OF assms(2)] sq [OF assms(3)] by linarith
  also have "\<dots> = (k * Vector_mag v) * (k * Vector_mag v)"
  proof -
    have "Vector_mag v * Vector_mag v = vx v * vx v + vy v * vy v" by (simp add: Vector_mag_def)
    then show ?thesis by (simp add: algebra_simps)
  qed
  finally have "sqrt (vx w * vx w + vy w * vy w) \<le> sqrt ((k * Vector_mag v) * (k * Vector_mag v))"
    by (rule real_sqrt_le_mono)
  also have "\<dots> = k * Vector_mag v"
    using assms(1) Vector_mag_nonneg [of v] by (simp add: abs_mult)
  finally show ?thesis by (simp add: Vector_mag_def)
qed

lemma Vector_mult_b64_mag:
  assumes "0 \<le> s"
  shows "Vector_mag (Vector_mult_b64 w s) \<le> (s * rnd_up) * Vector_mag w"
proof (rule Vector_mag_scale)
  show "0 \<le> s * rnd_up" using assms rnd_pos by simp
  have c: "\<bar>fl (a * s)\<bar> \<le> s * rnd_up * \<bar>a\<bar>" for a
  proof -
    have "\<bar>fl (a * s)\<bar> \<le> \<bar>a * s\<bar> * rnd_up" by (rule fl_abs_upper)
    also have "\<dots> = s * rnd_up * \<bar>a\<bar>" using assms by (simp add: abs_mult)
    finally show ?thesis .
  qed
  show "\<bar>vx (Vector_mult_b64 w s)\<bar> \<le> s * rnd_up * \<bar>vx w\<bar>"
    and "\<bar>vy (Vector_mult_b64 w s)\<bar> \<le> s * rnd_up * \<bar>vy w\<bar>"
    by (simp_all add: Vector_mult_b64_def c)
qed

lemma Vector_div_b64_mag:
  assumes "0 < m"
  shows "Vector_mag (Vector_div_b64 v m) \<le> (rnd_up / m) * Vector_mag v"
proof (rule Vector_mag_scale)
  show "0 \<le> rnd_up / m" using assms rnd_pos by simp
  have c: "\<bar>fl (a / m)\<bar> \<le> rnd_up / m * \<bar>a\<bar>" for a
  proof -
    have "\<bar>fl (a / m)\<bar> \<le> \<bar>a / m\<bar> * rnd_up" by (rule fl_abs_upper)
    also have "\<dots> = rnd_up / m * \<bar>a\<bar>" using assms by simp
    finally show ?thesis .
  qed
  show "\<bar>vx (Vector_div_b64 v m)\<bar> \<le> rnd_up / m * \<bar>vx v\<bar>"
    and "\<bar>vy (Vector_div_b64 v m)\<bar> \<le> rnd_up / m * \<bar>vy v\<bar>"
    using assms c [of "vx v"] c [of "vy v"] by (simp_all add: Vector_div_b64_def)
qed

lemma Vector_limit_b64_cut:
  assumes "0 < M" and "Vector_mag_b64 v > M"
  shows "Vector_mag (Vector_limit_b64 v M) \<le> M * (rnd_up * rnd_up / (rnd_dn * rnd_dn))"
proof -
  let ?m = "Vector_mag_b64 v" and ?r = "Vector_mag v"
  have m: "0 < ?m" using assms by linarith
  have lim: "Vector_limit_b64 v M = Vector_mult_b64 (Vector_div_b64 v ?m) M"
    using assms m by (simp add: Vector_limit_b64_def Vector_normalize_b64_def Let_def)
  have LL: "0 < rnd_dn * rnd_dn" using rnd_pos by simp
  have r: "?r \<le> ?m / (rnd_dn * rnd_dn)"
    using Vector_mag_b64_lower [of v] LL by (simp add: pos_le_divide_eq)
  have "Vector_mag (Vector_limit_b64 v M) \<le> (M * rnd_up) * Vector_mag (Vector_div_b64 v ?m)"
    unfolding lim using assms(1) by (intro Vector_mult_b64_mag) simp
  also have "\<dots> \<le> (M * rnd_up) * ((rnd_up / ?m) * ?r)"
    using Vector_div_b64_mag [OF m, of v] assms(1) rnd_pos by (intro mult_left_mono) simp_all
  also have "\<dots> \<le> (M * rnd_up) * ((rnd_up / ?m) * (?m / (rnd_dn * rnd_dn)))"
    using r assms(1) rnd_pos m by (intro mult_left_mono) simp_all
  also have "\<dots> = M * (rnd_up * rnd_up / (rnd_dn * rnd_dn))"
    using m by simp
  finally show ?thesis .
qed

lemma rnd_factor_cut:
  "rnd_up * rnd_up / (rnd_dn * rnd_dn) * (rnd_up * rnd_up) \<le> 1 + 1 / 2 ^ 50"
  by (simp add: rnd_up_def rnd_dn_def)

lemma rnd_factor_damp:
  "8 / 10 * rnd_up * rnd_up * (rnd_up * rnd_up) * (rnd_up * rnd_up / (rnd_dn * rnd_dn)) \<le> 1"
  by (simp add: rnd_up_def rnd_dn_def)

lemma fl_damp: "0 \<le> fl 0.8" "fl 0.8 \<le> 8 / 10 * rnd_up"
  using fl_upper [of "0.8"] fl_nonneg [of "0.8"] by simp_all

lemma Vector_limit_b64_length:
  assumes "0 < M"
  shows "Vector_mag (Vector_limit_b64 v M) \<le> M * (rnd_up * rnd_up / (rnd_dn * rnd_dn))"
proof (cases "Vector_mag_b64 v > M")
  case True
  then show ?thesis using Vector_limit_b64_cut [OF assms] by simp
next
  case False
  have LL: "0 < rnd_dn * rnd_dn" using rnd_pos by simp
  have one: "1 \<le> rnd_up * rnd_up" by (simp add: rnd_up_def)
  have "Vector_mag v \<le> Vector_mag_b64 v / (rnd_dn * rnd_dn)"
    using Vector_mag_b64_lower [of v] LL by (simp add: pos_le_divide_eq)
  also have "\<dots> \<le> M / (rnd_dn * rnd_dn)"
    using False LL by (simp add: divide_right_mono)
  also have "\<dots> = M * (1 / (rnd_dn * rnd_dn))" by simp
  also have "\<dots> \<le> M * (rnd_up * rnd_up / (rnd_dn * rnd_dn))"
    using assms one LL by (intro mult_left_mono divide_right_mono) simp_all
  finally show ?thesis using False by (simp add: Vector_limit_b64_def Let_def)
qed

lemma Vector_limit_b64_mag:
  assumes "0 < M"
  shows "Vector_mag_b64 (Vector_limit_b64 v M) \<le> M * (1 + 1 / 2 ^ 50)"
proof (cases "Vector_mag_b64 v > M")
  case True
  let ?w = "Vector_limit_b64 v M"
  have "Vector_mag_b64 ?w \<le> Vector_mag ?w * (rnd_up * rnd_up)"
    by (rule Vector_mag_b64_upper)
  also have "\<dots> \<le> (M * (rnd_up * rnd_up / (rnd_dn * rnd_dn))) * (rnd_up * rnd_up)"
    using Vector_limit_b64_length [OF assms, of v] rnd_pos
    by (intro mult_right_mono) simp_all
  also have "\<dots> = M * (rnd_up * rnd_up / (rnd_dn * rnd_dn) * (rnd_up * rnd_up))"
    by (simp only: mult.assoc)
  also have "\<dots> \<le> M * (1 + 1 / 2 ^ 50)"
    using assms rnd_factor_cut by (intro mult_left_mono) simp_all
  finally show ?thesis .
next
  case False
  then have "Vector_mag_b64 (Vector_limit_b64 v M) \<le> M"
    by (simp add: Vector_limit_b64_def Let_def)
  also have "M \<le> M * (1 + 1 / 2 ^ 50)" using assms by simp
  finally show ?thesis .
qed

lemma Vector_damped_b64_mag:
  assumes "0 < M"
  shows "Vector_mag_b64 (Vector_mult_b64 (Vector_limit_b64 v M) (fl 0.8)) \<le> M"
proof -
  let ?w = "Vector_limit_b64 v M" and ?c = "fl 0.8"
  let ?d = "Vector_mult_b64 ?w ?c"
  let ?K = "rnd_up * rnd_up / (rnd_dn * rnd_dn)"
  have K0: "0 \<le> ?K" using rnd_pos by simp
  have w0: "0 \<le> Vector_mag ?w" by (rule Vector_mag_nonneg)
  have "Vector_mag ?d \<le> (?c * rnd_up) * Vector_mag ?w"
    using fl_damp(1) by (rule Vector_mult_b64_mag)
  also have "\<dots> \<le> (8 / 10 * rnd_up * rnd_up) * Vector_mag ?w"
    using fl_damp(2) rnd_pos w0 by (intro mult_right_mono) simp_all
  also have "\<dots> \<le> (8 / 10 * rnd_up * rnd_up) * (M * ?K)"
    using Vector_limit_b64_length [OF assms, of v] rnd_pos by (intro mult_left_mono) simp_all
  finally have d: "Vector_mag ?d \<le> (8 / 10 * rnd_up * rnd_up) * (M * ?K)" .
  have "Vector_mag_b64 ?d \<le> Vector_mag ?d * (rnd_up * rnd_up)" by (rule Vector_mag_b64_upper)
  also have "\<dots> \<le> ((8 / 10 * rnd_up * rnd_up) * (M * ?K)) * (rnd_up * rnd_up)"
    using d rnd_pos by (intro mult_right_mono) simp_all
  also have "\<dots> = M * (8 / 10 * rnd_up * rnd_up * (rnd_up * rnd_up) * ?K)"
    by (simp only: mult.assoc mult.commute mult.left_commute)
  also have "\<dots> \<le> M * 1"
    using assms rnd_factor_damp by (intro mult_left_mono) simp_all
  finally show ?thesis by simp
qed

section \<open>The speed bound of Agent.update\<close>

text \<open>The roundings along the update of \<open>runner\<close>, each checked against its half-ulp
  interval.\<close>

lemma b64_sq_x: "fl (29206669829258403248756220714025 / 20282409603651670423947251286016) = (3242591731706757 / 2251799813685248)"
  using fl_evalN [where x = "29206669829258403248756220714025 / 20282409603651670423947251286016" and n = 52 and k = "6485183463413514"] by simp

lemma b64_sq_sum: "fl (12249790986447749 / 2251799813685248) = (3062447746611937 / 562949953421312)"
  using fl_tieN [where x = "12249790986447749 / 2251799813685248" and n = 50 and f = "6124895493223874"] by simp

lemma b64_norm: "fl (sqrt (3062447746611937 / 562949953421312)) = (1313013639042029 / 562949953421312)"
  using fl_sqrt_evalN [where q = "(3062447746611937 / 562949953421312)" and k = "5252054556168116" and n = 51] by simp

lemma b64_unit_x: "fl (5404319552844595 / 10504109112336232) = (4634165784854221 / 9007199254740992)"
  using fl_evalN [where x = "5404319552844595 / 10504109112336232" and n = 53 and k = "4634165784854221"] by simp

lemma b64_unit_y: "fl (1125899906842624 / 1313013639042029) = (3861804820711851 / 4503599627370496)"
  using fl_evalN [where x = "1125899906842624 / 1313013639042029" and n = 53 and k = "7723609641423702"] by simp

lemma b64_cut_x: "fl (4634165784854221 / 4503599627370496) = (4634165784854221 / 4503599627370496)"
  using fl_evalN [where x = "4634165784854221 / 4503599627370496" and n = 52 and k = "4634165784854221"] by simp

lemma b64_cut_y: "fl (3861804820711851 / 2251799813685248) = (3861804820711851 / 2251799813685248)"
  using fl_evalN [where x = "3861804820711851 / 2251799813685248" and n = 52 and k = "7723609641423702"] by simp

lemma b64_next_x: "fl (1806074016733052621 / 4503599627370496) = (7054976627863487 / 17592186044416)"
  using fl_evalN [where x = "1806074016733052621 / 4503599627370496" and n = 44 and k = "7054976627863487"] by simp

lemma b64_next_y: "fl (814509737747401131 / 2251799813685248) = (6363357326151571 / 17592186044416)"
  using fl_evalN [where x = "814509737747401131 / 2251799813685248" and n = 44 and k = "6363357326151571"] by simp

lemma b64_rect_x: "fl (6967015697641407 / 17592186044416) = (6967015697641407 / 17592186044416)"
  using fl_evalN [where x = "6967015697641407 / 17592186044416" and n = 44 and k = "6967015697641407"] by simp

lemma b64_rect_y: "fl (6275396395929491 / 17592186044416) = (6275396395929491 / 17592186044416)"
  using fl_evalN [where x = "6275396395929491 / 17592186044416" and n = 44 and k = "6275396395929491"] by simp

lemma b64_rect_right: "fl (7142937558085567 / 17592186044416) = (7142937558085567 / 17592186044416)"
  using fl_evalN [where x = "7142937558085567 / 17592186044416" and n = 44 and k = "7142937558085567"] by simp

lemma b64_rect_bottom: "fl (6451318256373651 / 17592186044416) = (6451318256373651 / 17592186044416)"
  using fl_evalN [where x = "6451318256373651 / 17592186044416" and n = 44 and k = "6451318256373651"] by simp

lemma b64_cut_sq_x: "fl (21475492521513538117078221516841 / 20282409603651670423947251286016) = (2384258626254969 / 2251799813685248)"
  using fl_evalN [where x = "21475492521513538117078221516841 / 20282409603651670423947251286016" and n = 52 and k = "4768517252509938"] by simp

lemma b64_cut_sq_y: "fl (14913536473273291646350371846201 / 5070602400912917605986812821504) = (3311470314243013 / 1125899906842624)"
  using fl_evalN [where x = "14913536473273291646350371846201 / 5070602400912917605986812821504" and n = 51 and k = "6622940628486026"] by simp

lemma b64_cut_sq_sum: "fl (9007199254740995 / 2251799813685248) = (2251799813685249 / 562949953421312)"
  using fl_tieN [where x = "9007199254740995 / 2251799813685248" and n = 50 and f = "4503599627370497"] by simp

lemma b64_cut_norm: "fl (sqrt (2251799813685249 / 562949953421312)) = (4503599627370497 / 2251799813685248)"
  using fl_sqrt_evalN [where q = "(2251799813685249 / 562949953421312)" and k = "4503599627370497" and n = 51] by simp

lemma Environment_new_b64_default:
  "Environment_new_b64 800 600 = Environment_new 800 600"
  by (simp add: Environment_new_b64_def setupEnvironment_b64_def Environment_new_def
      setupEnvironment_def fl_numeral)

lemma runner_cut:
  "Vector_limit_b64 (velocity runner) (maxSpeed runner)
   = \<lparr>vx = 4634165784854221 / 4503599627370496, vy = 3861804820711851 / 2251799813685248\<rparr>"
  by (simp add: runner_def Vector_limit_b64_def Vector_normalize_b64_def Vector_mag_b64_def
      Vector_div_b64_def Vector_mult_b64_def Let_def fl_numeral
      b64_sq_x b64_sq_sum b64_norm b64_unit_x b64_unit_y b64_cut_x b64_cut_y)

lemma runner_next_valid:
  "isPositionValid_b64 (Environment_new_b64 800 600)
     (Vector_add_b64 (position runner)
        \<lparr>vx = 4634165784854221 / 4503599627370496, vy = 3861804820711851 / 2251799813685248\<rparr>)"
  by (simp add: runner_def Environment_new_b64_default Environment_new_def setupEnvironment_def
      isPositionValid_b64_def agentRect_b64_def rectIntersect_b64_def Vector_add_b64_def
      Let_def fl_numeral
      b64_next_x b64_next_y b64_rect_x b64_rect_y b64_rect_right b64_rect_bottom)

lemma runner_update:
  "velocity (Agent_update_b64 (Environment_new_b64 800 600) runner)
   = \<lparr>vx = 4634165784854221 / 4503599627370496, vy = 3861804820711851 / 2251799813685248\<rparr>"
  using runner_next_valid by (simp add: Agent_update_b64_def Let_def runner_cut)

text \<open>
  C1 as stated fails in the source's arithmetic. The agent at \<open>(400, 360)\<close> with velocity
  \<open>(1.2, 2)\<close> (\<open>1.2\<close> being the binary64 number nearest to it) and \<open>maxSpeed = 2\<close>, in
  the default 800 by 600 environment, leaves \<open>Agent.update\<close> with the velocity
  \<open>(1.0289915108550531, 1.7149858514250886)\<close>: its \<open>mag()\<close> is \<open>2.0000000000000004\<close>,
  and its exact length is above 2 as well.
\<close>

theorem update_speed_bound_counterexample:
  "0 < maxSpeed runner \<and>
   maxSpeed runner < Vector_mag_b64 (velocity (Agent_update_b64 (Environment_new_b64 800 600) runner)) \<and>
   maxSpeed runner < Vector_mag (velocity (Agent_update_b64 (Environment_new_b64 800 600) runner))"
proof -
  have m: "Vector_mag_b64 \<lparr>vx = 4634165784854221 / 4503599627370496,
                          vy = 3861804820711851 / 2251799813685248\<rparr>
           = 4503599627370497 / 2251799813685248"
    by (simp add: Vector_mag_b64_def b64_cut_sq_x b64_cut_sq_y b64_cut_sq_sum b64_cut_norm)
  have "(2::real) * 2 < 4634165784854221 / 4503599627370496 * (4634165784854221 / 4503599627370496)
      + 3861804820711851 / 2251799813685248 * (3861804820711851 / 2251799813685248)"
    by simp
  then have "sqrt (2 * 2) < Vector_mag \<lparr>vx = 4634165784854221 / 4503599627370496,
                          vy = 3861804820711851 / 2251799813685248\<rparr>"
    unfolding Vector_mag_def by (simp only: real_sqrt_less_iff Vector.simps)
  then have t: "2 < Vector_mag \<lparr>vx = 4634165784854221 / 4503599627370496,
                          vy = 3861804820711851 / 2251799813685248\<rparr>"
    by simp
  show ?thesis
    unfolding runner_update m using t by (simp add: runner_def)
qed

text \<open>
  C1, amended: for every agent with \<open>maxSpeed > 0\<close> and every environment, after
  \<open>Agent.update(env)\<close> the magnitude \<open>mag()\<close> of the agent's velocity is at most
  \<open>maxSpeed \<sqdot> (1 + 2\<^sup>-\<^sup>5\<^sup>0)\<close>: \<open>limit\<close> rescales to \<open>maxSpeed\<close> up to rounding, and the only
  later change of the velocity is the multiplication by 0.8.
\<close>

theorem update_speed_bound_b64:
  assumes "0 < maxSpeed a"
  shows "Vector_mag_b64 (velocity (Agent_update_b64 e a)) \<le> maxSpeed a * (1 + 1 / 2 ^ 50)"
proof -
  have "maxSpeed a \<le> maxSpeed a * (1 + 1 / 2 ^ 50)" using assms by simp
  then have "Vector_mag_b64 (Vector_mult_b64 (Vector_limit_b64 (velocity a) (maxSpeed a)) (fl 0.8))
       \<le> maxSpeed a * (1 + 1 / 2 ^ 50)"
    using Vector_damped_b64_mag [OF assms, of "velocity a"] by linarith
  then show ?thesis
    using Vector_limit_b64_mag [OF assms, of "velocity a"]
    by (simp add: Agent_update_b64_def Let_def)
qed

theorem update_speed_bound_b64_witness:
  "0 < maxSpeed runner \<and>
   Vector_mag_b64 (velocity (Agent_update_b64 (Environment_new_b64 800 600) runner))
     \<le> maxSpeed runner * (1 + 1 / 2 ^ 50)"
proof -
  have h: "0 < maxSpeed runner" by (simp add: runner_def)
  show ?thesis
    using h update_speed_bound_b64 [OF h, of "Environment_new_b64 800 600"] by blast
qed

section \<open>When seekGoal returns the zero vector\<close>

text \<open>
  C6 as stated (\<open>seekGoal\<close> returns zero only when the agent is exactly at the goal)
  fails: the agent at the origin that already moves at \<open>maxSpeed = 2\<close> straight toward the
  goal \<open>(1, 0)\<close> gets the zero steering vector although it is not at the goal.
\<close>

theorem seekGoal_b64_zero_counterexample:
  "position mover \<noteq> Vector_new 1 0 \<and> seekGoal_b64 mover (Vector_new 1 0) = Vector_new 0 0"
  by (simp add: mover_def seekGoal_b64_def Vector_sub_b64_def Vector_normalize_b64_def
      Vector_mag_b64_def Vector_div_b64_def Vector_mult_b64_def Vector_new_def Let_def fl_simps)

text \<open>
  C6, amended: \<open>seekGoal\<close> returns the zero vector exactly when the agent's current
  velocity equals the desired velocity \<open>normalize(goal - position) \<sqdot> maxSpeed\<close> that the
  function computes; an agent at rest with \<open>maxSpeed \<noteq> 0\<close> that is not at the goal
  always gets a non-zero steering vector.
\<close>

theorem seekGoal_b64_zero_iff:
  "(seekGoal_b64 a goal = Vector_new 0 0 \<longleftrightarrow>
      velocity a = Vector_mult_b64 (Vector_normalize_b64 (Vector_sub_b64 goal (position a)))
                     (maxSpeed a)) \<and>
   (velocity a = Vector_new 0 0 \<and> maxSpeed a \<noteq> 0 \<and> position a \<noteq> goal \<longrightarrow>
      seekGoal_b64 a goal \<noteq> Vector_new 0 0)"
proof -
  let ?d = "Vector_sub_b64 goal (position a)"
  let ?des = "Vector_mult_b64 (Vector_normalize_b64 ?d) (maxSpeed a)"
  have iff: "seekGoal_b64 a goal = Vector_new 0 0 \<longleftrightarrow> velocity a = ?des"
    by (auto simp: seekGoal_b64_def Let_def Vector_eq_iff Vector_sub_b64_def Vector_new_def
        fl_zero_iff)
  have "seekGoal_b64 a goal \<noteq> Vector_new 0 0"
    if rest: "velocity a = Vector_new 0 0" and ms: "maxSpeed a \<noteq> 0" and ne: "position a \<noteq> goal"
  proof
    assume "seekGoal_b64 a goal = Vector_new 0 0"
    then have "?des = Vector_new 0 0" using iff rest by simp
    then have z: "fl (vx (Vector_normalize_b64 ?d) * maxSpeed a) = 0"
      "fl (vy (Vector_normalize_b64 ?d) * maxSpeed a) = 0"
      by (simp_all add: Vector_mult_b64_def Vector_new_def)
    then have n: "vx (Vector_normalize_b64 ?d) = 0" "vy (Vector_normalize_b64 ?d) = 0"
      using ms by (simp_all add: fl_zero_iff)
    have d0: "vx ?d = 0 \<and> vy ?d = 0"
    proof (cases "Vector_mag_b64 ?d = 0")
      case True
      then show ?thesis by (simp add: Vector_mag_b64_zero_iff)
    next
      case False
      then show ?thesis
        using n by (simp add: Vector_normalize_b64_def Vector_div_b64_def Let_def fl_zero_iff)
    qed
    then have "vx goal = vx (position a)" "vy goal = vy (position a)"
      by (simp_all add: Vector_sub_b64_def fl_zero_iff)
    then show False using ne by (simp add: Vector_eq_iff)
  qed
  then show ?thesis using iff by blast
qed

theorem seekGoal_b64_zero_iff_witness:
  "velocity (Agent_new 0 0 2 50 20) = Vector_new 0 0 \<and> maxSpeed (Agent_new 0 0 2 50 20) \<noteq> 0 \<and>
   position (Agent_new 0 0 2 50 20) \<noteq> Vector_new 1 0 \<and>
   seekGoal_b64 (Agent_new 0 0 2 50 20) (Vector_new 1 0) \<noteq> Vector_new 0 0"
proof -
  have h1: "velocity (Agent_new 0 0 2 50 20) = Vector_new 0 0" by (simp add: Agent_new_def)
  have h2: "maxSpeed (Agent_new 0 0 2 50 20) \<noteq> 0" by (simp add: Agent_new_def)
  have h3: "position (Agent_new 0 0 2 50 20) \<noteq> Vector_new 1 0"
    by (simp add: Agent_new_def Vector_new_def)
  show ?thesis
    using seekGoal_b64_zero_iff [of "Agent_new 0 0 2 50 20" "Vector_new 1 0"] h1 h2 h3 by blast
qed

end
